theory Spec2Isabelle
  imports Complex_Main
begin

section \<open>Data model of Stage.js\<close>

text \<open>
  A position \<open>{x: .., y: ..}\<close> as \<open>getUserPosition\<close>, \<open>go.drag.offset\<close> and the
  drag handler use it. Coordinates are integers (pixels).
\<close>

record point =
  pos_x :: int
  pos_y :: int

text \<open>
  What \<open>_detectEvent\<close> and \<open>_traverseChildren\<close> read from a shape object:
  \<open>_id\<close>, \<open>isVisible()\<close>, \<open>attrs.listening\<close>, the truthiness of \<open>eventListeners\<close>
  and the hit test \<open>intersects(pos)\<close> (Shape.js is not part of Stage.js, so the hit
  test is a field of the shape).
\<close>

record shape =
  shape_id :: nat
  visible :: bool
  listening :: bool
  eventListeners :: bool
  intersects :: "point \<Rightarrow> bool"

text \<open>
  A child of a container: a shape (\<open>nodeType === 'Shape'\<close>) or another container with
  its \<open>attrs.listening\<close> and its \<open>children\<close> in insertion order.
\<close>

datatype node = Shape shape | Container bool "node list"

text \<open>A layer: \<open>isVisible()\<close>, \<open>attrs.listening\<close>, \<open>children\<close>.\<close>

record layer =
  layer_visible :: bool
  layer_listening :: bool
  layer_children :: "node list"

text \<open>The event types handed to \<open>node._handleEvents(type, evt)\<close>.\<close>

datatype event_type =
  Mousedown | Mouseup | Click | Dblclick
  | Touchstart | Touchend | Tap | Dbltap
  | Mouseover | Mouseout | Mousemove | Touchmove
  | Dragstart | Dragmove | Dragend

text \<open>\<open>node.attrs.dragBounds\<close>: each side is a number or \<open>undefined\<close>.\<close>

record bounds =
  left :: "int option"
  right :: "int option"
  top :: "int option"
  bottom :: "int option"

text \<open>The attributes of a node that the drag handler reads and writes.\<close>

record node_attrs =
  attrs_x :: int
  attrs_y :: int
  dragConstraint :: string
  dragBounds :: bounds

text \<open>
  The stage with everything its handlers touch. The first group are the fields of
  \<open>_setStageDefaultProperties\<close> and of the constructor; \<open>drag_node\<close>, \<open>drag_moving\<close>,
  \<open>drag_offset\<close> are \<open>Kinetic.GlobalObject.drag\<close>; \<open>attrs\<close> is the store of node
  attributes by \<open>_id\<close>; \<open>inDoubleClickWindow\<close> is the flag of each shape by \<open>_id\<close>;
  \<open>timers\<close> are the pending \<open>setTimeout\<close> callbacks (due time, shape whose flag the
  callback clears); \<open>clock\<close> is \<open>new Date().getTime()\<close>; \<open>emitted\<close> lists the calls of
  \<open>_handleEvents\<close> in order (node \<open>_id\<close>, event type); \<open>probed\<close> lists the shapes
  on which \<open>_detectEvent\<close> was invoked, in order.
\<close>

record stage =
  targetShape :: "shape option"
  targetFound :: bool
  mouseoverShape :: "shape option"
  mouseoutShape :: "shape option"
  mousePos :: "point option"
  mouseDown :: bool
  mouseUp :: bool
  mouseMove :: bool
  clickStart :: bool
  touchPos :: "point option"
  touchStart :: bool
  touchEnd :: bool
  touchMove :: bool
  tapStart :: bool
  lastEventTime :: int
  dblClickWindow :: int
  throttle :: int
  drag_node :: "nat option"
  drag_moving :: bool
  drag_offset :: point
  attrs :: "nat \<Rightarrow> node_attrs"
  inDoubleClickWindow :: "nat \<Rightarrow> bool"
  timers :: "(int \<times> nat) list"
  clock :: int
  emitted :: "(nat \<times> event_type) list"
  probed :: "nat list"

text \<open>
  A DOM event as \<open>_setMousePosition\<close> and \<open>_setTouchPosition\<close> read it:
  \<open>offsetX\<close>/\<open>offsetY\<close> (or \<open>undefined\<close>), \<open>clientX\<close>/\<open>clientY\<close>, and \<open>touches\<close>
  (or \<open>undefined\<close>) with the \<open>clientX\<close>, \<open>clientY\<close> of each contact. The coordinates
  are integers. For an event that has no \<open>clientX\<close>/\<open>clientY\<close>, as a touch event, the
  source stores a mouse position of \<open>NaN\<close>s; the events here always carry the two
  numbers, so that position is a number here. It is read only while no touch position
  has been set.
\<close>

record dom_event =
  offsetX :: "int option"
  offsetY :: "int option"
  clientX :: int
  clientY :: int
  touches :: "(int \<times> int) list option"

text \<open>
  An element on the \<open>offsetParent\<close> chain of the content div, and the window's scroll
  offsets.
\<close>

record element =
  is_body :: bool
  offsetTop :: int
  scrollTop :: int
  offsetLeft :: int
  scrollLeft :: int

record dom =
  content_chain :: "element list"
  pageXOffset :: int
  pageYOffset :: int

section \<open>Positions\<close>

definition getMousePosition :: "stage \<Rightarrow> point option" where
  "getMousePosition st = mousePos st"

definition getTouchPosition :: "stage \<Rightarrow> point option" where
  "getTouchPosition st = touchPos st"

text \<open>\<open>touchPos || mousePos\<close>: a position object is truthy, \<open>undefined\<close> is not.\<close>

definition getUserPosition :: "stage \<Rightarrow> point option" where
  "getUserPosition st =
     (case getTouchPosition st of Some p \<Rightarrow> Some p | None \<Rightarrow> getMousePosition st)"

text \<open>
  \<open>_getContentPosition\<close>: the loop over \<open>obj.offsetParent\<close> until \<open>BODY\<close> (or the end of
  the chain), returning (top, left).
\<close>

fun getContentPosition :: "element list \<Rightarrow> int \<times> int" where
  "getContentPosition [] = (0, 0)"
| "getContentPosition (obj # up) =
     (if is_body obj then (0, 0)
      else (let (t, l) = getContentPosition up
            in (t + (offsetTop obj - scrollTop obj), l + (offsetLeft obj - scrollLeft obj))))"

text \<open>\<open>a || b\<close> on a number that may be \<open>undefined\<close>: 0 and \<open>undefined\<close> are falsy.\<close>

definition or_else :: "int option \<Rightarrow> int \<Rightarrow> int" where
  "or_else a b = (case a of None \<Rightarrow> b | Some v \<Rightarrow> (if v = 0 then b else v))"

definition setMousePosition :: "dom \<Rightarrow> dom_event \<Rightarrow> stage \<Rightarrow> stage" where
  "setMousePosition d evt st =
     (let (t, l) = getContentPosition (content_chain d);
          mouseX = or_else (offsetX evt) (clientX evt - l + pageXOffset d);
          mouseY = or_else (offsetY evt) (clientY evt - t + pageYOffset d)
      in st\<lparr>mousePos := Some \<lparr>pos_x = mouseX, pos_y = mouseY\<rparr>\<rparr>)"

definition setTouchPosition :: "dom \<Rightarrow> dom_event \<Rightarrow> stage \<Rightarrow> stage" where
  "setTouchPosition d evt st =
     (case touches evt of
        Some [touch] \<Rightarrow>
          (let (t, l) = getContentPosition (content_chain d);
               touchX = fst touch - l + pageXOffset d;
               touchY = snd touch - t + pageYOffset d
           in st\<lparr>touchPos := Some \<lparr>pos_x = touchX, pos_y = touchY\<rparr>\<rparr>)
      | _ \<Rightarrow> st)"

section \<open>The per-shape decision\<close>

text \<open>\<open>node._handleEvents(type, evt)\<close>: recorded in \<open>emitted\<close>.\<close>

definition handleEvents :: "nat \<Rightarrow> event_type \<Rightarrow> stage \<Rightarrow> stage" where
  "handleEvents n ty st = st\<lparr>emitted := emitted st @ [(n, ty)]\<rparr>"

definition setTarget :: "shape option \<Rightarrow> stage \<Rightarrow> stage" where
  "setTarget s st = st\<lparr>targetShape := s, targetFound := True\<rparr>"

definition isNewTarget :: "shape \<Rightarrow> stage \<Rightarrow> bool \<times> stage" where
  "isNewTarget s st =
     (case targetShape st of
        None \<Rightarrow> (True, st)
      | Some old \<Rightarrow>
          (if \<not> targetFound st \<and> shape_id s \<noteq> shape_id old
           then (True, if eventListeners old then st\<lparr>mouseoutShape := Some old\<rparr> else st)
           else (False, st)))"

text \<open>
  The click/tap tail of a release: the event itself, the double variant when the
  shape's flag is set, then the flag is set and a timeout is started that clears it
  \<open>dblClickWindow\<close> milliseconds later.
\<close>

definition fireClick :: "shape \<Rightarrow> event_type \<Rightarrow> event_type \<Rightarrow> stage \<Rightarrow> stage" where
  "fireClick s single double st =
     (let st1 = handleEvents (shape_id s) single st;
          st2 = (if inDoubleClickWindow st1 (shape_id s)
                 then handleEvents (shape_id s) double st1 else st1)
      in st2\<lparr>inDoubleClickWindow := (inDoubleClickWindow st2)(shape_id s := True),
             timers := timers st2 @ [(clock st2 + dblClickWindow st2, shape_id s)]\<rparr>)"

definition hit :: "shape \<Rightarrow> stage \<Rightarrow> bool" where
  "hit s st =
     (visible s \<and> (case getUserPosition st of None \<Rightarrow> False | Some pos \<Rightarrow> intersects s pos))"

definition isTarget :: "shape \<Rightarrow> stage \<Rightarrow> bool" where
  "isTarget s st = (case targetShape st of None \<Rightarrow> False | Some t \<Rightarrow> shape_id t = shape_id s)"

text \<open>
  The branches of \<open>_detectEvent\<close>, named after the comments that head them in the
  source. \<open>noteTarget\<close> is the first statement: the tracked target has been reached.
\<close>

definition noteTarget :: "shape \<Rightarrow> stage \<Rightarrow> stage" where
  "noteTarget s st = (if isTarget s st then st\<lparr>targetFound := True\<rparr> else st)"

definition onmousedown :: "shape \<Rightarrow> stage \<Rightarrow> stage" where
  "onmousedown s st =
     handleEvents (shape_id s) Mousedown (st\<lparr>mouseDown := False, clickStart := True\<rparr>)"

text \<open>
  The two nested tests of a release: a press was seen (\<open>clickStart\<close>, \<open>tapStart\<close>), and
  \<open>(!go.drag.moving) || !go.drag.node\<close>.
\<close>

definition clickArmed :: "stage \<Rightarrow> bool" where
  "clickArmed st = (clickStart st \<and> (\<not> drag_moving st \<or> drag_node st = None))"

definition tapArmed :: "stage \<Rightarrow> bool" where
  "tapArmed st = (tapStart st \<and> (\<not> drag_moving st \<or> drag_node st = None))"

definition onmouseup :: "shape \<Rightarrow> stage \<Rightarrow> stage" where
  "onmouseup s st =
     (let st1 = handleEvents (shape_id s) Mouseup (st\<lparr>mouseUp := False\<rparr>)
      in if clickArmed st1 then fireClick s Click Dblclick st1 else st1)"

definition ontouchstart :: "shape \<Rightarrow> stage \<Rightarrow> stage" where
  "ontouchstart s st =
     handleEvents (shape_id s) Touchstart (st\<lparr>touchStart := False, tapStart := True\<rparr>)"

definition ontouchend :: "shape \<Rightarrow> stage \<Rightarrow> stage" where
  "ontouchend s st =
     (let st1 = handleEvents (shape_id s) Touchend (st\<lparr>touchEnd := False\<rparr>)
      in if tapArmed st1 then fireClick s Tap Dbltap st1 else st1)"

text \<open>
  The body of the \<open>onmouseover\<close> branch, entered after \<open>_isNewTarget\<close> has answered
  true: the stored mouseout runs first, then the mouseover, then the shape becomes the
  target.
\<close>

definition onmouseover :: "shape \<Rightarrow> stage \<Rightarrow> stage" where
  "onmouseover s st =
     (let st1 = (case mouseoutShape st of
                   None \<Rightarrow> st
                 | Some m \<Rightarrow>
                     (handleEvents (shape_id m) Mouseout
                        (st\<lparr>mouseoverShape := Some s\<rparr>))\<lparr>mouseoverShape := None\<rparr>)
      in setTarget (Some s) (handleEvents (shape_id s) Mouseover st1))"

definition onmouseout :: "shape \<Rightarrow> stage \<Rightarrow> stage" where
  "onmouseout s st = (setTarget None st)\<lparr>mouseoutShape := Some s\<rparr>"

definition detectEvent :: "shape \<Rightarrow> stage \<Rightarrow> bool \<times> stage" where
  "detectEvent s st0 =
     (let isDragging = drag_moving st0;
          st = noteTarget s (st0\<lparr>probed := probed st0 @ [shape_id s]\<rparr>)
      in if hit s st then
           (if \<not> isDragging \<and> mouseDown st then (True, onmousedown s st)
            else if mouseUp st then (True, onmouseup s st)
            else if \<not> isDragging \<and> touchStart st then (True, ontouchstart s st)
            else if touchEnd st then (True, ontouchend s st)
            else if \<not> isDragging \<and> fst (isNewTarget s st)
              then (True, onmouseover s (snd (isNewTarget s st)))
            else if \<not> isDragging \<and> mouseMove st
              then (True, handleEvents (shape_id s) Mousemove st)
            else if \<not> isDragging \<and> touchMove st
              then (True, handleEvents (shape_id s) Touchmove st)
            else (False, st))
         else if \<not> isDragging \<and> isTarget s st then (True, onmouseout s st)
         else (False, st))"

section \<open>Traversal\<close>

text \<open>
  \<open>_traverseChildren\<close>: the loop runs from the last child to the first, so the
  recursion handles the tail of the list (the children added later) before its head.
\<close>

fun traverseChildren :: "node list \<Rightarrow> stage \<Rightarrow> bool \<times> stage" where
  "traverseChildren [] st = (False, st)"
| "traverseChildren (child # later) st =
     (case traverseChildren later st of
        (True, st1) \<Rightarrow> (True, st1)
      | (False, st1) \<Rightarrow>
          (case child of
             Shape s \<Rightarrow> (if listening s then detectEvent s st1 else (False, st1))
           | Container l children \<Rightarrow>
               (if l then traverseChildren children st1 else (False, st1))))"

text \<open>The loop over the layers in \<open>_handleStageEvent\<close>, again from the last layer.\<close>

fun traverseLayers :: "layer list \<Rightarrow> stage \<Rightarrow> bool \<times> stage" where
  "traverseLayers [] st = (False, st)"
| "traverseLayers (l # higher) st =
     (case traverseLayers higher st of
        (True, st1) \<Rightarrow> (True, st1)
      | (False, st1) \<Rightarrow>
          (if layer_visible l \<and> layer_listening l
           then traverseChildren (layer_children l) st1 else (False, st1)))"

section \<open>Handling a DOM event\<close>

text \<open>
  \<open>_handleStageEvent\<close>. Clearing the path layer is rendering and has no effect on the
  state modelled here.
\<close>

definition handleStageEvent :: "layer list \<Rightarrow> dom \<Rightarrow> dom_event \<Rightarrow> stage \<Rightarrow> stage" where
  "handleStageEvent children d evt st =
     (let st1 = st\<lparr>lastEventTime := clock st\<rparr>;
          st2 = setTouchPosition d evt (setMousePosition d evt st1);
          st3 = st2\<lparr>targetFound := False\<rparr>
      in case traverseLayers children st3 of
           (True, st4) \<Rightarrow> st4
         | (False, st4) \<Rightarrow>
             (case mouseoutShape st4 of
                None \<Rightarrow> st4
              | Some m \<Rightarrow> (handleEvents (shape_id m) Mouseout st4)\<lparr>mouseoutShape := None\<rparr>))"

text \<open>
  The throttle test \<open>timeDiff >= 1000 / throttle\<close>. In JavaScript \<open>1000 / 0\<close> is
  \<open>Infinity\<close>, which no time difference reaches. The rate \<open>attrs.throttle\<close> is an
  integer here, as the default 80 is, and the times are integers (milliseconds): then
  \<open>1000 - timeDiff * throttle\<close> is an integer, so the exact quotient is either equal to
  \<open>timeDiff\<close> or at least \<open>1 / |throttle|\<close> away from it, which is more than the rounding
  of a double can bridge, and the test on doubles has the outcome of the test on the
  exact quotient. A rate that is not an integer is not covered.
\<close>

definition throttlePassed :: "stage \<Rightarrow> bool" where
  "throttlePassed st =
     (let timeDiff = clock st - lastEventTime st
      in if throttle st = 0 then False
         else 1000 / real_of_int (throttle st) \<le> real_of_int timeDiff)"

text \<open>
  The listeners that \<open>_listen\<close> adds to the content div. The call of \<open>_initDrag\<close> for a
  draggable stage only registers listeners of Node.js and changes none of the fields
  here.
\<close>

definition listen_mousedown :: "layer list \<Rightarrow> dom \<Rightarrow> dom_event \<Rightarrow> stage \<Rightarrow> stage" where
  "listen_mousedown children d evt st =
     handleStageEvent children d evt (st\<lparr>mouseDown := True, mouseUp := False, mouseMove := False\<rparr>)"

definition listen_mousemove :: "layer list \<Rightarrow> dom \<Rightarrow> dom_event \<Rightarrow> stage \<Rightarrow> stage" where
  "listen_mousemove children d evt st =
     (if throttlePassed st
      then handleStageEvent children d evt
             (st\<lparr>mouseDown := False, mouseUp := False, mouseMove := True\<rparr>)
      else st)"

definition listen_mouseup :: "layer list \<Rightarrow> dom \<Rightarrow> dom_event \<Rightarrow> stage \<Rightarrow> stage" where
  "listen_mouseup children d evt st =
     (handleStageEvent children d evt
        (st\<lparr>mouseDown := False, mouseUp := True, mouseMove := False\<rparr>))\<lparr>clickStart := False\<rparr>"

definition listen_mouseover :: "layer list \<Rightarrow> dom \<Rightarrow> dom_event \<Rightarrow> stage \<Rightarrow> stage" where
  "listen_mouseover children d evt st = handleStageEvent children d evt st"

definition listen_mouseout :: "stage \<Rightarrow> stage" where
  "listen_mouseout st =
     (let st1 = (case targetShape st of
                   None \<Rightarrow> st
                 | Some t \<Rightarrow> (handleEvents (shape_id t) Mouseout st)\<lparr>targetShape := None\<rparr>)
      in st1\<lparr>mousePos := None\<rparr>)"

definition listen_touchstart :: "layer list \<Rightarrow> dom \<Rightarrow> dom_event \<Rightarrow> stage \<Rightarrow> stage" where
  "listen_touchstart children d evt st =
     handleStageEvent children d evt (st\<lparr>touchStart := True, touchEnd := False, touchMove := False\<rparr>)"

definition listen_touchmove :: "layer list \<Rightarrow> dom \<Rightarrow> dom_event \<Rightarrow> stage \<Rightarrow> stage" where
  "listen_touchmove children d evt st =
     (if throttlePassed st
      then handleStageEvent children d evt
             (st\<lparr>touchStart := False, touchEnd := False, touchMove := True\<rparr>)
      else st)"

definition listen_touchend :: "layer list \<Rightarrow> dom \<Rightarrow> dom_event \<Rightarrow> stage \<Rightarrow> stage" where
  "listen_touchend children d evt st =
     (handleStageEvent children d evt
        (st\<lparr>touchStart := False, touchEnd := True, touchMove := False\<rparr>))\<lparr>tapStart := False\<rparr>"

section \<open>Drag and drop\<close>

definition endDrag :: "stage \<Rightarrow> stage" where
  "endDrag st =
     (let st1 = (case drag_node st of
                   None \<Rightarrow> st
                 | Some n \<Rightarrow>
                     (if drag_moving st
                      then handleEvents n Dragend (st\<lparr>drag_moving := False\<rparr>) else st))
      in st1\<lparr>drag_node := None\<rparr>)"

text \<open>The four \<open>bounds overrides\<close> of the move handler, in the order of the source.\<close>

definition boundsOverrides :: "bounds \<Rightarrow> point \<Rightarrow> point" where
  "boundsOverrides db newNodePos =
     (let p1 = (case left db of
                  Some b \<Rightarrow> (if pos_x newNodePos < b then newNodePos\<lparr>pos_x := b\<rparr> else newNodePos)
                | None \<Rightarrow> newNodePos);
          p2 = (case right db of
                  Some b \<Rightarrow> (if b < pos_x p1 then p1\<lparr>pos_x := b\<rparr> else p1)
                | None \<Rightarrow> p1);
          p3 = (case top db of
                  Some b \<Rightarrow> (if pos_y p2 < b then p2\<lparr>pos_y := b\<rparr> else p2)
                | None \<Rightarrow> p2);
          p4 = (case bottom db of
                  Some b \<Rightarrow> (if b < pos_y p3 then p3\<lparr>pos_y := b\<rparr> else p3)
                | None \<Rightarrow> p3)
      in p4)"

text \<open>
  The position handed to \<open>node.setAbsolutePosition\<close>: the pointer minus the offset,
  then the bounds.
\<close>

definition newNodePos :: "stage \<Rightarrow> nat \<Rightarrow> point \<Rightarrow> point" where
  "newNodePos st n pos =
     boundsOverrides (dragBounds (attrs st n))
       \<lparr>pos_x = pos_x pos - pos_x (drag_offset st), pos_y = pos_y pos - pos_y (drag_offset st)\<rparr>"

datatype error = TypeError

text \<open>
  The \<open>mousemove touchmove\<close> listener of \<open>_prepareDrag\<close>. \<open>node.setAbsolutePosition\<close>
  belongs to Node.js, which is not part of Stage.js: it is the parameter \<open>sap\<close>, giving
  the \<open>attrs.x\<close>, \<open>attrs.y\<close> it stores for a node when asked for an absolute position.
  Reading \<open>pos.x\<close> of an undefined position throws before anything is written.
  Redrawing the layers is rendering.
\<close>

definition prepareDrag_move ::
  "((nat \<Rightarrow> node_attrs) \<Rightarrow> nat \<Rightarrow> point \<Rightarrow> point) \<Rightarrow> stage \<Rightarrow> error + stage" where
  "prepareDrag_move sap st =
     (case drag_node st of
        None \<Rightarrow> Inr st
      | Some n \<Rightarrow>
          (case getUserPosition st of
             None \<Rightarrow> Inl TypeError
           | Some pos \<Rightarrow>
               (let dc = dragConstraint (attrs st n);
                    lastNodePos = \<lparr>pos_x = attrs_x (attrs st n), pos_y = attrs_y (attrs st n)\<rparr>;
                    stored = sap (attrs st) n (newNodePos st n pos);
                    a1 = (attrs st n)\<lparr>attrs_x := pos_x stored, attrs_y := pos_y stored\<rparr>;
                    a2 = (if dc = ''horizontal'' then a1\<lparr>attrs_y := pos_y lastNodePos\<rparr>
                          else if dc = ''vertical'' then a1\<lparr>attrs_x := pos_x lastNodePos\<rparr>
                          else a1);
                    st1 = st\<lparr>attrs := (attrs st)(n := a2)\<rparr>;
                    st2 = (if \<not> drag_moving st1
                           then handleEvents n Dragstart (st1\<lparr>drag_moving := True\<rparr>) else st1)
                in Inr (handleEvents n Dragmove st2))))"

section \<open>Timers and the event loop\<close>

text \<open>
  The callbacks of \<open>setTimeout\<close> that are due at time \<open>now\<close> run: each clears the flag
  of its shape.
\<close>

definition runTimers :: "int \<Rightarrow> stage \<Rightarrow> stage" where
  "runTimers now st =
     st\<lparr>inDoubleClickWindow :=
          fold (\<lambda>(due, i) f. if due \<le> now then f(i := False) else f) (timers st)
            (inDoubleClickWindow st),
        timers := filter (\<lambda>(due, i). now < due) (timers st)\<rparr>"

datatype dom_kind =
  DomMousedown | DomMousemove | DomMouseup | DomMouseover | DomMouseout
  | DomTouchstart | DomTouchmove | DomTouchend

text \<open>
  A DOM event arriving on the content div: its kind, the time of arrival, the event
  object, the DOM around the content div and the layers of the stage at that moment.
\<close>

record raw =
  raw_kind :: dom_kind
  raw_time :: int
  raw_evt :: dom_event
  raw_dom :: dom
  raw_children :: "layer list"

text \<open>The listener that \<open>_listen\<close> registered for the kind of the event.\<close>

definition listen :: "raw \<Rightarrow> stage \<Rightarrow> stage" where
  "listen r st =
     (case raw_kind r of
        DomMousedown \<Rightarrow> listen_mousedown (raw_children r) (raw_dom r) (raw_evt r) st
      | DomMousemove \<Rightarrow> listen_mousemove (raw_children r) (raw_dom r) (raw_evt r) st
      | DomMouseup \<Rightarrow> listen_mouseup (raw_children r) (raw_dom r) (raw_evt r) st
      | DomMouseover \<Rightarrow> listen_mouseover (raw_children r) (raw_dom r) (raw_evt r) st
      | DomMouseout \<Rightarrow> listen_mouseout st
      | DomTouchstart \<Rightarrow> listen_touchstart (raw_children r) (raw_dom r) (raw_evt r) st
      | DomTouchmove \<Rightarrow> listen_touchmove (raw_children r) (raw_dom r) (raw_evt r) st
      | DomTouchend \<Rightarrow> listen_touchend (raw_children r) (raw_dom r) (raw_evt r) st)"

text \<open>
  The listener that \<open>_prepareDrag\<close> registered for the kind of the event; it was added
  after the one of \<open>_listen\<close> and runs after it. An exception ends the listener and
  leaves the state as it was.
\<close>

definition prepareDrag ::
  "((nat \<Rightarrow> node_attrs) \<Rightarrow> nat \<Rightarrow> point \<Rightarrow> point) \<Rightarrow> raw \<Rightarrow> stage \<Rightarrow> stage" where
  "prepareDrag sap r st =
     (if raw_kind r = DomMousemove \<or> raw_kind r = DomTouchmove
      then (case prepareDrag_move sap st of Inl e \<Rightarrow> st | Inr st1 \<Rightarrow> st1)
      else if raw_kind r = DomMouseup \<or> raw_kind r = DomTouchend \<or> raw_kind r = DomMouseout
      then endDrag st
      else st)"

text \<open>
  The state in which the listeners of a DOM event start: the clock shows the time of
  arrival and the timeouts due by then have run.
\<close>

definition arrival :: "raw \<Rightarrow> stage \<Rightarrow> stage" where
  "arrival r st = runTimers (raw_time r) (st\<lparr>clock := raw_time r\<rparr>)"

text \<open>
  One DOM event: after its arrival the two listeners run in the order of their
  registration.
\<close>

definition dispatch ::
  "((nat \<Rightarrow> node_attrs) \<Rightarrow> nat \<Rightarrow> point \<Rightarrow> point) \<Rightarrow> raw \<Rightarrow> stage \<Rightarrow> stage" where
  "dispatch sap r st = prepareDrag sap r (listen r (arrival r st))"

text \<open>
  Modelled from the spec: the arming of a drag session is done by a listener of Node.js,
  which is not part of Stage.js. Section 4.5: a press lands on a draggable node and the
  session records the node and the offset between the pointer and the node's position.
  \<open>InitDrag n off\<close> is that write to \<open>go.drag\<close>.
\<close>

datatype input = Dom raw | InitDrag nat point

definition step ::
  "((nat \<Rightarrow> node_attrs) \<Rightarrow> nat \<Rightarrow> point \<Rightarrow> point) \<Rightarrow> input \<Rightarrow> stage \<Rightarrow> stage" where
  "step sap i st =
     (case i of
        Dom r \<Rightarrow> dispatch sap r st
      | InitDrag n off \<Rightarrow> st\<lparr>drag_node := Some n, drag_offset := off\<rparr>)"

fun run ::
  "((nat \<Rightarrow> node_attrs) \<Rightarrow> nat \<Rightarrow> point \<Rightarrow> point) \<Rightarrow> input list \<Rightarrow> stage \<Rightarrow> stage" where
  "run sap [] st = st"
| "run sap (i # is) st = run sap is (step sap i st)"

text \<open>
  The stage after its constructor: \<open>_setStageDefaultProperties\<close>, \<open>lastEventTime = 0\<close>,
  \<open>dblClickWindow = 400\<close>, the default \<open>throttle\<close> of 80, no drag session, no event
  emitted yet. The node attributes and the clock are those of the surroundings.
\<close>

definition newStage :: "(nat \<Rightarrow> node_attrs) \<Rightarrow> stage" where
  "newStage a =
     \<lparr>targetShape = None, targetFound = False, mouseoverShape = None, mouseoutShape = None,
      mousePos = None, mouseDown = False, mouseUp = False, mouseMove = False,
      clickStart = False, touchPos = None, touchStart = False, touchEnd = False,
      touchMove = False, tapStart = False, lastEventTime = 0, dblClickWindow = 400,
      throttle = 80, drag_node = None, drag_moving = False,
      drag_offset = \<lparr>pos_x = 0, pos_y = 0\<rparr>, attrs = a,
      inDoubleClickWindow = (\<lambda>i. False), timers = [], clock = 0, emitted = [], probed = []\<rparr>"

section \<open>Reference definitions\<close>

text \<open>
  The order in which a dispatch reaches the shapes, written from the description of the
  traversal: layers in reverse insertion order, only the visible and listening ones;
  within a container the children in reverse insertion order, a subtree whose root is
  not listening skipped.
\<close>

fun shapesOf :: "node \<Rightarrow> shape list" where
  "shapesOf (Shape s) = (if listening s then [s] else [])"
| "shapesOf (Container l children) = (if l then concat (map shapesOf (rev children)) else [])"

definition visitOrder :: "layer list \<Rightarrow> shape list" where
  "visitOrder layers =
     concat (map (\<lambda>l. concat (map shapesOf (rev (layer_children l))))
               (rev (filter (\<lambda>l. layer_visible l \<and> layer_listening l) layers)))"

text \<open>First hit wins: the shapes are asked in order and the first that consumes ends it.\<close>

fun firstHit :: "shape list \<Rightarrow> stage \<Rightarrow> bool \<times> stage" where
  "firstHit [] st = (False, st)"
| "firstHit (s # rest) st =
     (case detectEvent s st of
        (True, st1) \<Rightarrow> (True, st1)
      | (False, st1) \<Rightarrow> firstHit rest st1)"

text \<open>An optional lower and an optional upper clamp of one coordinate.\<close>

definition clampLow :: "int option \<Rightarrow> int \<Rightarrow> int" where
  "clampLow b v = (case b of None \<Rightarrow> v | Some lo \<Rightarrow> max lo v)"

definition clampHigh :: "int option \<Rightarrow> int \<Rightarrow> int" where
  "clampHigh b v = (case b of None \<Rightarrow> v | Some hi \<Rightarrow> min hi v)"

text \<open>The number of \<open>mouseover\<close> emissions minus the number of \<open>mouseout\<close> emissions.\<close>

definition countOf :: "event_type \<Rightarrow> (nat \<times> event_type) list \<Rightarrow> int" where
  "countOf ty es = int (length (filter (\<lambda>e. snd e = ty) es))"

definition enterMinusExit :: "stage \<Rightarrow> int" where
  "enterMinusExit st = countOf Mouseover (emitted st) - countOf Mouseout (emitted st)"

text \<open>The events emitted between two states.\<close>

definition emittedSince :: "stage \<Rightarrow> stage \<Rightarrow> (nat \<times> event_type) list" where
  "emittedSince st st' = drop (length (emitted st)) (emitted st')"

text \<open>
  The fields that no part of \<open>_detectEvent\<close> writes: the node attributes, the drag
  session, the positions, the clock and the configuration.
\<close>

definition frame :: "stage \<Rightarrow> stage \<Rightarrow> bool" where
  "frame st st' =
     (attrs st' = attrs st \<and> drag_node st' = drag_node st \<and> drag_moving st' = drag_moving st
      \<and> drag_offset st' = drag_offset st \<and> mousePos st' = mousePos st
      \<and> touchPos st' = touchPos st \<and> lastEventTime st' = lastEventTime st
      \<and> throttle st' = throttle st \<and> clock st' = clock st
      \<and> dblClickWindow st' = dblClickWindow st)"

text \<open>
  The state in which \<open>_handleStageEvent\<close> starts the loop over the layers: the time is
  recorded, the positions are set, \<open>targetFound\<close> is reset.
\<close>

definition beforeTraversal :: "dom \<Rightarrow> dom_event \<Rightarrow> stage \<Rightarrow> stage" where
  "beforeTraversal d evt st =
     (setTouchPosition d evt (setMousePosition d evt (st\<lparr>lastEventTime := clock st\<rparr>)))
       \<lparr>targetFound := False\<rparr>"

text \<open>The state in which the traversal of a mouseup event \<open>r\<close> starts.\<close>

definition releasing :: "raw \<Rightarrow> stage \<Rightarrow> stage" where
  "releasing r st =
     beforeTraversal (raw_dom r) (raw_evt r)
       ((arrival r st)\<lparr>mouseDown := False, mouseUp := True, mouseMove := False\<rparr>)"

text \<open>
  A qualifying release: the call of \<open>_detectEvent\<close> on the shape takes the mouseup or
  the touchend branch and passes the click or tap test.
\<close>

definition qualifyingRelease :: "shape \<Rightarrow> stage \<Rightarrow> bool" where
  "qualifyingRelease s st =
     (hit s st \<and> \<not> (\<not> drag_moving st \<and> mouseDown st)
      \<and> (if mouseUp st then clickArmed st
          else \<not> (\<not> drag_moving st \<and> touchStart st) \<and> touchEnd st \<and> tapArmed st))"

text \<open>The test of \<open>_setTouchPosition\<close>: \<open>touches\<close> is defined and has exactly one contact.\<close>

definition singleContact :: "dom_event \<Rightarrow> bool" where
  "singleContact evt = (case touches evt of Some [c] \<Rightarrow> True | _ \<Rightarrow> False)"



text \<open>
  What the drag handler may do to the attributes of the nodes: the constraint of every
  node stays, and so does the locked coordinate of a constrained node.
\<close>

definition axisKept :: "(nat \<Rightarrow> node_attrs) \<Rightarrow> (nat \<Rightarrow> node_attrs) \<Rightarrow> bool" where
  "axisKept a a' =
     (\<forall>m. dragConstraint (a' m) = dragConstraint (a m)
          \<and> (dragConstraint (a m) = ''horizontal'' \<longrightarrow> attrs_y (a' m) = attrs_y (a m))
          \<and> (dragConstraint (a m) = ''vertical'' \<longrightarrow> attrs_x (a' m) = attrs_x (a m)))"

text \<open>The call of \<open>_detectEvent\<close> on the shape takes the \<open>onmouseover\<close> branch.\<close>

definition entering :: "shape \<Rightarrow> stage \<Rightarrow> bool" where
  "entering s st =
     (hit s st \<and> \<not> drag_moving st \<and> \<not> mouseDown st \<and> \<not> mouseUp st \<and> \<not> touchStart st
      \<and> \<not> touchEnd st \<and> fst (isNewTarget s st))"

text \<open>
  The balance of enter and exit: at most one enter is not yet matched by an exit, and
  none when neither a target is tracked nor a mouseout is stored; the tracked target
  has listeners.
\<close>

definition balanced :: "stage \<Rightarrow> bool" where
  "balanced st =
     (enterMinusExit st \<le> (if targetShape st = None \<and> mouseoutShape st = None then 0 else 1)
      \<and> (case targetShape st of None \<Rightarrow> True | Some t \<Rightarrow> eventListeners t))"

text \<open>
  The shape whose call of \<open>_detectEvent\<close> consumes the event when the shapes are asked
  in order, if there is one.
\<close>

fun consumer :: "shape list \<Rightarrow> stage \<Rightarrow> shape option" where
  "consumer [] st = None"
| "consumer (s # rest) st =
     (case detectEvent s st of
        (True, st1) \<Rightarrow> Some s
      | (False, st1) \<Rightarrow> consumer rest st1)"

text \<open>The state in which the traversal of a touchend event \<open>r\<close> starts.\<close>

definition releasingTouch :: "raw \<Rightarrow> stage \<Rightarrow> stage" where
  "releasingTouch r st =
     beforeTraversal (raw_dom r) (raw_evt r)
       ((arrival r st)\<lparr>touchStart := False, touchEnd := True, touchMove := False\<rparr>)"

section \<open>An example stage\<close>

text \<open>
  A shape that is visible, listens, has listeners and covers the points with
  \<open>lo \<le> x \<le> hi\<close> and \<open>0 \<le> y \<le> 10\<close>.
\<close>

definition strip :: "nat \<Rightarrow> int \<Rightarrow> int \<Rightarrow> shape" where
  "strip i lo hi =
     \<lparr>shape_id = i, visible = True, listening = True, eventListeners = True,
      intersects = (\<lambda>p. lo \<le> pos_x p \<and> pos_x p \<le> hi \<and> 0 \<le> pos_y p \<and> pos_y p \<le> 10)\<rparr>"

text \<open>One layer with two shapes side by side: shape 1 over x in 0..10, shape 2 over 20..30.\<close>

definition twoShapes :: "layer list" where
  "twoShapes =
     [\<lparr>layer_visible = True, layer_listening = True,
       layer_children = [Shape (strip 1 0 10), Shape (strip 2 20 30)]\<rparr>]"

text \<open>The content div at the origin of a page that is not scrolled.\<close>

definition page :: dom where
  "page = \<lparr>content_chain = [], pageXOffset = 0, pageYOffset = 0\<rparr>"

text \<open>A mouse event of kind \<open>k\<close> at time \<open>t\<close> with the pointer at \<open>(x, y)\<close>.\<close>

definition mouseRaw :: "dom_kind \<Rightarrow> int \<Rightarrow> int \<Rightarrow> int \<Rightarrow> raw" where
  "mouseRaw k t x y =
     \<lparr>raw_kind = k, raw_time = t,
      raw_evt = \<lparr>offsetX = Some x, offsetY = Some y, clientX = x, clientY = y,
                 touches = None\<rparr>,
      raw_dom = page, raw_children = twoShapes\<rparr>"

definition mouse :: "dom_kind \<Rightarrow> int \<Rightarrow> int \<Rightarrow> int \<Rightarrow> input" where
  "mouse k t x y = Dom (mouseRaw k t x y)"

text \<open>A touch event with one contact at \<open>(x, y)\<close>.\<close>

definition touch :: "dom_kind \<Rightarrow> int \<Rightarrow> int \<Rightarrow> int \<Rightarrow> input" where
  "touch k t x y =
     Dom \<lparr>raw_kind = k, raw_time = t,
          raw_evt = \<lparr>offsetX = None, offsetY = None, clientX = 0, clientY = 0,
                     touches = Some [(x, y)]\<rparr>,
          raw_dom = page, raw_children = twoShapes\<rparr>"

text \<open>A node without parents' transforms: the absolute position is stored as it is.\<close>

definition storeAsGiven :: "(nat \<Rightarrow> node_attrs) \<Rightarrow> nat \<Rightarrow> point \<Rightarrow> point" where
  "storeAsGiven a n p = p"

text \<open>Nodes at (3, 7) with the given constraint and bounds.\<close>

definition nodesWith :: "string \<Rightarrow> bounds \<Rightarrow> nat \<Rightarrow> node_attrs" where
  "nodesWith dc db = (\<lambda>i. \<lparr>attrs_x = 3, attrs_y = 7, dragConstraint = dc, dragBounds = db\<rparr>)"

definition noBounds :: bounds where
  "noBounds = \<lparr>left = None, right = None, top = None, bottom = None\<rparr>"

definition plainNodes :: "nat \<Rightarrow> node_attrs" where
  "plainNodes = nodesWith ''none'' noBounds"

text \<open>The example stage after the pointer has moved onto shape 1.\<close>

definition hoverOne :: stage where
  "hoverOne = run storeAsGiven [mouse DomMousemove 1000 5 5] (newStage plainNodes)"

text \<open>Shape 1 after it has been hidden.\<close>

definition hiddenOne :: shape where
  "hiddenOne = (strip 1 0 10)\<lparr>visible := False\<rparr>"

text \<open>A move of the pointer to (15, 5), between the two shapes of the example.\<close>

definition moveOut :: "int \<Rightarrow> raw" where
  "moveOut t = mouseRaw DomMousemove t 15 5"

text \<open>
  The example stage after the pointer has moved onto shape 1, when a move off it has
  set the position; and after that move has been handled.
\<close>

definition outsideOne :: stage where
  "outsideOne = beforeTraversal page (raw_evt (moveOut 2000)) hoverOne"

definition leftOne :: stage where
  "leftOne = run storeAsGiven [mouse DomMousemove 1000 5 5, Dom (moveOut 2000)] (newStage plainNodes)"

text \<open>
  The example stage when the pointer, having left shape 1, arrives over shape 2 at time
  \<open>t\<close>: the state in which the traversal starts.
\<close>

definition arrivingAtTwo :: "int \<Rightarrow> stage \<Rightarrow> stage" where
  "arrivingAtTwo t st =
     beforeTraversal page (raw_evt (mouseRaw DomMousemove t 25 5))
       ((arrival (mouseRaw DomMousemove t 25 5) st)
          \<lparr>mouseDown := False, mouseUp := False, mouseMove := True\<rparr>)"

text \<open>The example stage after a press on shape 1.\<close>

definition pressedOne :: stage where
  "pressedOne = run storeAsGiven [mouse DomMousedown 1000 5 5] (newStage plainNodes)"

text \<open>
  Three clicks on shape 1 of the example, with releases at times 1010, 1310 and 1610.
\<close>

definition threeClicks :: "input list" where
  "threeClicks =
     [mouse DomMousedown 1000 5 5, mouse DomMouseup 1010 5 5,
      mouse DomMousedown 1300 5 5, mouse DomMouseup 1310 5 5,
      mouse DomMousedown 1600 5 5, mouse DomMouseup 1610 5 5]"

text \<open>The example stage when the second of the three releases reaches shape 1.\<close>

definition secondRelease :: stage where
  "secondRelease =
     releasing (mouseRaw DomMouseup 1310 5 5)
       (run storeAsGiven (take 3 threeClicks) (newStage plainNodes))"



text \<open>
  A stage with a drag session on node 1, whose bounds are \<open>{left: 10, right: 100}\<close>,
  the offset (0, 0) and the pointer at \<open>(x, 0)\<close>.
\<close>

definition boundedDrag :: "int \<Rightarrow> stage" where
  "boundedDrag x =
     (newStage (nodesWith ''none'' \<lparr>left = Some 10, right = Some 100, top = None, bottom = None\<rparr>))
       \<lparr>mousePos := Some \<lparr>pos_x = x, pos_y = 0\<rparr>, drag_node := Some 1\<rparr>"

text \<open>
  A press on shape 1, the start of a drag of node 1 and three moves of the pointer, the
  last one dropped by the throttle, then the release.
\<close>

definition dragSequence :: "input list" where
  "dragSequence =
     [mouse DomMousedown 1000 5 5, InitDrag 1 \<lparr>pos_x = 2, pos_y = -2\<rparr>,
      mouse DomMousemove 2000 25 5, mouse DomMousemove 3000 40 50,
      mouse DomMousemove 3001 41 51, mouse DomMouseup 4000 15 5]"

text \<open>The example stage after a touch at (5, 5).\<close>

definition touched :: stage where
  "touched = run storeAsGiven [touch DomTouchstart 1000 5 5] (newStage plainNodes)"

text \<open>
  The pointer moves onto shape 1, then onto shape 2, leaves the content div and comes
  back over the empty area between the shapes.
\<close>

definition enterLeaveEnter :: "input list" where
  "enterLeaveEnter =
     [mouse DomMousemove 1000 5 5, mouse DomMousemove 2000 25 5,
      mouse DomMouseout 3000 25 5, mouse DomMouseover 4000 15 5]"

text \<open>The example stage after the pointer has moved onto shape 2 and pressed there.\<close>

definition hoveredAndPressedTwo :: stage where
  "hoveredAndPressedTwo =
     run storeAsGiven [mouse DomMousemove 1000 25 5, mouse DomMousedown 1100 25 5]
       (newStage plainNodes)"

text \<open>The finger is lifted: a touchend event without contacts.\<close>

definition liftFinger :: raw where
  "liftFinger =
     \<lparr>raw_kind = DomTouchend, raw_time = 2000,
      raw_evt = \<lparr>offsetX = None, offsetY = None, clientX = 0, clientY = 0,
                 touches = Some []\<rparr>,
      raw_dom = page, raw_children = twoShapes\<rparr>"

text \<open>A release of the mouse button over shape 1 and one over shape 2.\<close>

definition releaseOverOne :: raw where
  "releaseOverOne = mouseRaw DomMouseup 2000 5 5"

definition releaseOverTwo :: raw where
  "releaseOverTwo = mouseRaw DomMouseup 2000 25 5"

text \<open>
  The example stage after the pointer has moved onto shape 1 and pressed there, which
  has armed a drag of node 1.
\<close>

definition hoverOneArmed :: stage where
  "hoverOneArmed =
     run storeAsGiven
       [mouse DomMousemove 1000 5 5, mouse DomMousedown 1100 5 5,
        InitDrag 1 \<lparr>pos_x = 0, pos_y = 0\<rparr>]
       (newStage plainNodes)"

text \<open>The pointer leaves the content div.\<close>

definition leaveContent :: raw where
  "leaveContent = mouseRaw DomMouseout 2000 15 5"

section \<open>The branches as record updates\<close>

lemma fireClick_upd:
  "fireClick s single double st =
     st\<lparr>emitted := emitted st @ [(shape_id s, single)]
            @ (if inDoubleClickWindow st (shape_id s) then [(shape_id s, double)] else []),
        inDoubleClickWindow := (inDoubleClickWindow st)(shape_id s := True),
        timers := timers st @ [(clock st + dblClickWindow st, shape_id s)]\<rparr>"
  by (simp add: fireClick_def handleEvents_def Let_def)

lemma onmousedown_upd:
  "onmousedown s st =
     st\<lparr>mouseDown := False, clickStart := True,
        emitted := emitted st @ [(shape_id s, Mousedown)]\<rparr>"
  by (simp add: onmousedown_def handleEvents_def)

lemma ontouchstart_upd:
  "ontouchstart s st =
     st\<lparr>touchStart := False, tapStart := True,
        emitted := emitted st @ [(shape_id s, Touchstart)]\<rparr>"
  by (simp add: ontouchstart_def handleEvents_def)

lemma armed_upd:
  "clickArmed (st\<lparr>mouseUp := b, emitted := e\<rparr>) = clickArmed st"
  "tapArmed (st\<lparr>touchEnd := b, emitted := e\<rparr>) = tapArmed st"
  by (simp_all add: clickArmed_def tapArmed_def)

lemma onmouseup_upd:
  "onmouseup s st =
     st\<lparr>mouseUp := False,
        emitted := emitted st @ [(shape_id s, Mouseup)]
            @ (if clickArmed st
               then (shape_id s, Click)
                    # (if inDoubleClickWindow st (shape_id s) then [(shape_id s, Dblclick)] else [])
               else []),
        inDoubleClickWindow :=
          (if clickArmed st then (inDoubleClickWindow st)(shape_id s := True)
           else inDoubleClickWindow st),
        timers := (if clickArmed st
                   then timers st @ [(clock st + dblClickWindow st, shape_id s)]
                   else timers st)\<rparr>"
  by (simp add: onmouseup_def handleEvents_def fireClick_upd Let_def armed_upd)

lemma ontouchend_upd:
  "ontouchend s st =
     st\<lparr>touchEnd := False,
        emitted := emitted st @ [(shape_id s, Touchend)]
            @ (if tapArmed st
               then (shape_id s, Tap)
                    # (if inDoubleClickWindow st (shape_id s) then [(shape_id s, Dbltap)] else [])
               else []),
        inDoubleClickWindow :=
          (if tapArmed st then (inDoubleClickWindow st)(shape_id s := True)
           else inDoubleClickWindow st),
        timers := (if tapArmed st
                   then timers st @ [(clock st + dblClickWindow st, shape_id s)]
                   else timers st)\<rparr>"
  by (simp add: ontouchend_def handleEvents_def fireClick_upd Let_def armed_upd)

lemma onmouseover_upd:
  "onmouseover s st =
     st\<lparr>mouseoverShape := (case mouseoutShape st of None \<Rightarrow> mouseoverShape st | Some m \<Rightarrow> None),
        emitted := emitted st
            @ (case mouseoutShape st of None \<Rightarrow> [] | Some m \<Rightarrow> [(shape_id m, Mouseout)])
            @ [(shape_id s, Mouseover)],
        targetShape := Some s, targetFound := True\<rparr>"
  by (simp add: onmouseover_def handleEvents_def setTarget_def Let_def split: option.splits)

lemma onmouseout_upd:
  "onmouseout s st = st\<lparr>targetShape := None, targetFound := True, mouseoutShape := Some s\<rparr>"
  by (simp add: onmouseout_def setTarget_def)

lemma isNewTarget_upd:
  "snd (isNewTarget s st) =
     st\<lparr>mouseoutShape :=
          (case targetShape st of
             None \<Rightarrow> mouseoutShape st
           | Some old \<Rightarrow>
               (if \<not> targetFound st \<and> shape_id s \<noteq> shape_id old \<and> eventListeners old
                then Some old else mouseoutShape st))\<rparr>"
  by (simp add: isNewTarget_def split: option.splits)

lemma handleEvents_upd:
  "handleEvents n ty st = st\<lparr>emitted := emitted st @ [(n, ty)]\<rparr>"
  by (simp add: handleEvents_def)

lemma noteTarget_upd:
  "noteTarget s st = st\<lparr>targetFound := (isTarget s st \<or> targetFound st)\<rparr>"
  by (simp add: noteTarget_def)

lemmas branch_upd = noteTarget_upd onmousedown_upd onmouseup_upd ontouchstart_upd
  ontouchend_upd onmouseover_upd onmouseout_upd isNewTarget_upd handleEvents_upd

lemma hit_upd:
  "hit s (st\<lparr>probed := p, targetFound := tf\<rparr>) = hit s st"
  "hit s (st\<lparr>probed := p\<rparr>) = hit s st"
  "isTarget s (st\<lparr>probed := p\<rparr>) = isTarget s st"
  "isTarget s (st\<lparr>probed := p, targetFound := tf\<rparr>) = isTarget s st"
  by (simp_all add: hit_def isTarget_def getUserPosition_def getTouchPosition_def
        getMousePosition_def split: option.splits)

section \<open>What a call of detectEvent leaves alone\<close>

lemma probed_detectEvent: "probed (snd (detectEvent s st)) = probed st @ [shape_id s]"
  by (simp add: detectEvent_def Let_def branch_upd)

lemma frame_refl: "frame st st"
  by (simp add: frame_def)

lemma frame_trans: "frame a b \<Longrightarrow> frame b c \<Longrightarrow> frame a c"
  by (simp add: frame_def)

lemma frame_detectEvent: "frame st (snd (detectEvent s st))"
  by (simp add: detectEvent_def Let_def branch_upd frame_def)

lemma detectEvent_False:
  "detectEvent s st = (False, st') \<Longrightarrow>
     st' = st\<lparr>targetFound := targetFound st', probed := probed st @ [shape_id s]\<rparr>"
  by (auto simp add: detectEvent_def Let_def noteTarget_def split: if_splits)

section \<open>The traversal is a first-hit scan of the visit order\<close>

lemma firstHit_append:
  "firstHit (xs @ ys) st =
     (case firstHit xs st of (True, st1) \<Rightarrow> (True, st1) | (False, st1) \<Rightarrow> firstHit ys st1)"
  by (induction xs arbitrary: st) (auto split: prod.splits bool.splits)

lemma traverseChildren_firstHit:
  "traverseChildren ns st = firstHit (concat (map shapesOf (rev ns))) st"
proof (induction ns st rule: traverseChildren.induct)
  case (1 st)
  show ?case by simp
next
  case (2 child later st)
  obtain b st1 where r: "traverseChildren later st = (b, st1)"
    by (cases "traverseChildren later st")
  have e: "firstHit (concat (map shapesOf (rev later))) st = (b, st1)"
    using "2.IH"(1) r by simp
  show ?case
  proof (cases b)
    case True
    then show ?thesis using r e by (simp add: firstHit_append)
  next
    case False
    show ?thesis
    proof (cases child)
      case (Shape s)
      then show ?thesis
        using r e False by (simp add: firstHit_append split: prod.splits bool.splits)
    next
      case (Container l children)
      have "l \<Longrightarrow> traverseChildren children st1 = firstHit (concat (map shapesOf (rev children))) st1"
        using "2.IH"(2)[OF r[symmetric] _ Container] False by simp
      then show ?thesis
        using r e False Container by (simp add: firstHit_append)
    qed
  qed
qed

lemma traverseLayers_firstHit: "traverseLayers ls st = firstHit (visitOrder ls) st"
proof (induction ls st rule: traverseLayers.induct)
  case (1 st)
  show ?case by (simp add: visitOrder_def)
next
  case (2 l higher st)
  obtain b st1 where r: "traverseLayers higher st = (b, st1)"
    by (cases "traverseLayers higher st")
  have e: "firstHit (visitOrder higher) st = (b, st1)"
    using "2.IH" r by simp
  show ?case
    using r e
    by (cases b) (simp_all add: visitOrder_def firstHit_append traverseChildren_firstHit)
qed

lemma firstHit_False:
  "firstHit ss st = (False, st') \<Longrightarrow>
     st' = st\<lparr>targetFound := targetFound st', probed := probed st'\<rparr>"
proof (induction ss arbitrary: st)
  case Nil
  then show ?case by simp
next
  case (Cons s ss)
  obtain b st1 where d: "detectEvent s st = (b, st1)"
    by (cases "detectEvent s st")
  with Cons.prems have b: "b = False" and r: "firstHit ss st1 = (False, st')"
    by (auto split: bool.splits)
  have 1: "st1 = st\<lparr>targetFound := targetFound st1, probed := probed st @ [shape_id s]\<rparr>"
    using detectEvent_False d b by simp
  have 2: "st' = st1\<lparr>targetFound := targetFound st', probed := probed st'\<rparr>"
    using Cons.IH[OF r] .
  show ?case by (subst 2, subst 1) simp
qed

lemma firstHit_True:
  "firstHit ss st = (True, st') \<Longrightarrow>
     \<exists>s st1. s \<in> set ss \<and> st1 = st\<lparr>targetFound := targetFound st1, probed := probed st1\<rparr>
        \<and> detectEvent s st1 = (True, st')"
proof (induction ss arbitrary: st)
  case Nil
  then show ?case by simp
next
  case (Cons s ss)
  obtain b st1 where d: "detectEvent s st = (b, st1)"
    by (cases "detectEvent s st")
  show ?case
  proof (cases b)
    case True
    with d Cons.prems have "detectEvent s st = (True, st')" by simp
    moreover have "st = st\<lparr>targetFound := targetFound st, probed := probed st\<rparr>" by simp
    ultimately show ?thesis by (metis list.set_intros(1))
  next
    case False
    with d Cons.prems have r: "firstHit ss st1 = (True, st')" by simp
    have 1: "st1 = st\<lparr>targetFound := targetFound st1, probed := probed st @ [shape_id s]\<rparr>"
      using detectEvent_False d False by simp
    from Cons.IH[OF r] obtain s2 st2 where
      m: "s2 \<in> set ss" and
      2: "st2 = st1\<lparr>targetFound := targetFound st2, probed := probed st2\<rparr>" and
      h: "detectEvent s2 st2 = (True, st')"
      by blast
    have "st2 = st\<lparr>targetFound := targetFound st2, probed := probed st2\<rparr>"
      by (subst 2, subst 1) simp
    with m h show ?thesis by (metis list.set_intros(2))
  qed
qed

lemma frame_firstHit: "frame st (snd (firstHit ss st))"
proof (induction ss arbitrary: st)
  case Nil
  show ?case by (simp add: frame_refl)
next
  case (Cons s ss)
  obtain b st1 where d: "detectEvent s st = (b, st1)"
    by (cases "detectEvent s st")
  have f: "frame st st1" using frame_detectEvent[of st s] d by simp
  show ?case
    using d f Cons.IH[of st1] by (cases b) (auto intro: frame_trans)
qed

lemma frame_traverseLayers: "frame st (snd (traverseLayers ls st))"
  by (simp add: traverseLayers_firstHit frame_firstHit)

section \<open>Traversal order\<close>

lemma firstHit_probed:
  "\<exists>k\<le>length ss.
     probed (snd (firstHit ss st)) = probed st @ map shape_id (take k ss)
     \<and> (if fst (firstHit ss st)
        then 0 < k \<and> (\<exists>st1. detectEvent (ss ! (k - 1)) st1 = (True, snd (firstHit ss st)))
        else k = length ss)"
proof (induction ss arbitrary: st)
  case Nil
  show ?case by simp
next
  case (Cons s ss)
  obtain b st1 where d: "detectEvent s st = (b, st1)"
    by (cases "detectEvent s st")
  have p: "probed st1 = probed st @ [shape_id s]"
    using probed_detectEvent[of s st] d by simp
  show ?case
  proof (cases b)
    case True
    have "probed (snd (firstHit (s # ss) st)) = probed st @ map shape_id (take 1 (s # ss))"
      using d p True by simp
    moreover have "fst (firstHit (s # ss) st)" using d True by simp
    moreover have "detectEvent ((s # ss) ! (1 - 1)) st = (True, snd (firstHit (s # ss) st))"
      using d True by simp
    ultimately show ?thesis
      by (intro exI[of _ 1]) auto
  next
    case False
    have e: "firstHit (s # ss) st = firstHit ss st1" using d False by simp
    from Cons.IH[of st1] obtain k where k: "k \<le> length ss"
      and pk: "probed (snd (firstHit ss st1)) = probed st1 @ map shape_id (take k ss)"
      and ck: "if fst (firstHit ss st1)
               then 0 < k \<and> (\<exists>st2. detectEvent (ss ! (k - 1)) st2 = (True, snd (firstHit ss st1)))
               else k = length ss"
      by blast
    have "probed (snd (firstHit (s # ss) st)) = probed st @ map shape_id (take (Suc k) (s # ss))"
      using e pk p by simp
    moreover have "if fst (firstHit (s # ss) st)
       then 0 < Suc k \<and> (\<exists>st2. detectEvent ((s # ss) ! (Suc k - 1)) st2
                                   = (True, snd (firstHit (s # ss) st)))
       else Suc k = length (s # ss)"
    proof (cases "fst (firstHit ss st1)")
      case True
      with ck obtain st2 where "0 < k" "detectEvent (ss ! (k - 1)) st2 = (True, snd (firstHit ss st1))"
        by auto
      then have "detectEvent ((s # ss) ! (Suc k - 1)) st2 = (True, snd (firstHit (s # ss) st))"
        using e by (cases k) simp_all
      then show ?thesis using True e by auto
    next
      case False
      then show ?thesis using ck e by simp
    qed
    ultimately show ?thesis
      using k by (intro exI[of _ "Suc k"]) simp
  qed
qed

text \<open>
  C4. Traversal is first-hit-wins: the layers are visited in reverse insertion order,
  the children of a container last-added-first, a subtree whose root is not listening
  is skipped; the shapes probed by a dispatch are a prefix of that order, which ends
  with the shape that consumed the event, or is the whole order when no shape did.
\<close>

theorem C4_first_hit_wins:
  "traverseLayers children st = firstHit (visitOrder children) st
   \<and> (\<exists>k\<le>length (visitOrder children).
        probed (snd (traverseLayers children st))
          = probed st @ map shape_id (take k (visitOrder children))
        \<and> (if fst (traverseLayers children st)
           then 0 < k \<and> (\<exists>st1. detectEvent (visitOrder children ! (k - 1)) st1
                                  = (True, snd (traverseLayers children st)))
           else k = length (visitOrder children)))"
  unfolding traverseLayers_firstHit
  by (rule conjI[OF refl firstHit_probed])

section \<open>The tracked target when the pointer has left it\<close>

text \<open>
  C10. When \<open>_detectEvent\<close> is called on the tracked target and a hit precondition
  fails (the shape is not visible, the position is undefined, or the hit test is
  negative) while no drag is moving, the call reports the event consumed, clears the
  tracked target and stores the shape as the pending mouseout shape.
\<close>

theorem C10_missed_target_is_exited:
  assumes "isTarget s st" and "\<not> drag_moving st"
    and "\<not> visible s \<or> getUserPosition st = None
         \<or> (\<exists>pos. getUserPosition st = Some pos \<and> \<not> intersects s pos)"
  shows "fst (detectEvent s st) \<and> targetShape (snd (detectEvent s st)) = None
         \<and> mouseoutShape (snd (detectEvent s st)) = Some s"
proof -
  have "\<not> hit s st"
    using assms(3) by (auto simp add: hit_def)
  then show ?thesis
    using assms(1,2) by (simp add: detectEvent_def Let_def branch_upd hit_upd)
qed

theorem C10_witness:
  "isTarget hiddenOne hoverOne \<and> \<not> drag_moving hoverOne \<and> \<not> visible hiddenOne
   \<and> fst (detectEvent hiddenOne hoverOne)
   \<and> targetShape (snd (detectEvent hiddenOne hoverOne)) = None
   \<and> mouseoutShape (snd (detectEvent hiddenOne hoverOne)) = Some hiddenOne"
proof -
  have a: "isTarget hiddenOne hoverOne" by code_simp
  have b: "\<not> drag_moving hoverOne" by code_simp
  have c: "\<not> visible hiddenOne" by code_simp
  from C10_missed_target_is_exited[OF a b] c a b show ?thesis by simp
qed

section \<open>Handling a DOM event: what stays\<close>

lemma beforeTraversal_sel:
  "attrs (beforeTraversal d evt st) = attrs st"
  "drag_node (beforeTraversal d evt st) = drag_node st"
  "drag_moving (beforeTraversal d evt st) = drag_moving st"
  "drag_offset (beforeTraversal d evt st) = drag_offset st"
  "throttle (beforeTraversal d evt st) = throttle st"
  "clock (beforeTraversal d evt st) = clock st"
  "dblClickWindow (beforeTraversal d evt st) = dblClickWindow st"
  "lastEventTime (beforeTraversal d evt st) = clock st"
  "emitted (beforeTraversal d evt st) = emitted st"
  "probed (beforeTraversal d evt st) = probed st"
  "timers (beforeTraversal d evt st) = timers st"
  "inDoubleClickWindow (beforeTraversal d evt st) = inDoubleClickWindow st"
  "targetShape (beforeTraversal d evt st) = targetShape st"
  "mouseoutShape (beforeTraversal d evt st) = mouseoutShape st"
  by (simp_all add: beforeTraversal_def setMousePosition_def setTouchPosition_def Let_def
        split: prod.splits option.splits list.splits)

lemma handleStageEvent_eq:
  "handleStageEvent children d evt st =
     (case traverseLayers children (beforeTraversal d evt st) of
        (True, st4) \<Rightarrow> st4
      | (False, st4) \<Rightarrow>
          (case mouseoutShape st4 of
             None \<Rightarrow> st4
           | Some m \<Rightarrow>
               st4\<lparr>emitted := emitted st4 @ [(shape_id m, Mouseout)], mouseoutShape := None\<rparr>))"
  by (simp add: handleStageEvent_def beforeTraversal_def Let_def handleEvents_def
        split: prod.splits bool.splits option.splits)

lemma handleStageEvent_keeps:
  "attrs (handleStageEvent children d evt st) = attrs st
   \<and> drag_node (handleStageEvent children d evt st) = drag_node st
   \<and> drag_moving (handleStageEvent children d evt st) = drag_moving st
   \<and> drag_offset (handleStageEvent children d evt st) = drag_offset st
   \<and> throttle (handleStageEvent children d evt st) = throttle st
   \<and> clock (handleStageEvent children d evt st) = clock st
   \<and> dblClickWindow (handleStageEvent children d evt st) = dblClickWindow st
   \<and> lastEventTime (handleStageEvent children d evt st) = clock st"
proof -
  obtain b st4 where t: "traverseLayers children (beforeTraversal d evt st) = (b, st4)"
    by (cases "traverseLayers children (beforeTraversal d evt st)")
  have "frame (beforeTraversal d evt st) st4"
    using frame_traverseLayers[of "beforeTraversal d evt st" children] t by simp
  then show ?thesis
    using t
    by (cases b)
       (simp_all add: handleStageEvent_eq frame_def beforeTraversal_sel split: option.splits)
qed

lemma listen_keeps:
  "attrs (listen r st) = attrs st \<and> drag_node (listen r st) = drag_node st
   \<and> drag_moving (listen r st) = drag_moving st \<and> drag_offset (listen r st) = drag_offset st
   \<and> throttle (listen r st) = throttle st \<and> clock (listen r st) = clock st
   \<and> dblClickWindow (listen r st) = dblClickWindow st"
  by (cases "raw_kind r")
     (simp_all add: listen_def listen_mousedown_def listen_mousemove_def listen_mouseup_def
        listen_mouseover_def listen_mouseout_def listen_touchstart_def listen_touchmove_def
        listen_touchend_def handleStageEvent_keeps handleEvents_def Let_def
        split: option.splits)

section \<open>Drag and drop\<close>

lemma boundsOverrides_clamp:
  "boundsOverrides db p =
     \<lparr>pos_x = clampHigh (right db) (clampLow (left db) (pos_x p)),
      pos_y = clampHigh (bottom db) (clampLow (top db) (pos_y p))\<rparr>"
  by (cases "left db"; cases "right db"; cases "top db"; cases "bottom db")
     (simp_all add: boundsOverrides_def clampLow_def clampHigh_def Let_def max_def min_def)

lemma axisKept_refl: "axisKept a a"
  by (simp add: axisKept_def)

lemma axisKept_trans: "axisKept a b \<Longrightarrow> axisKept b c \<Longrightarrow> axisKept a c"
  by (simp add: axisKept_def)

lemma axisKept_prepareDrag_move:
  "prepareDrag_move sap st = Inr st' \<Longrightarrow> axisKept (attrs st) (attrs st')"
  by (auto simp add: prepareDrag_move_def Let_def handleEvents_def axisKept_def
        split: option.splits if_splits)

lemma axisKept_endDrag: "axisKept (attrs st) (attrs (endDrag st))"
  by (simp add: endDrag_def Let_def handleEvents_def axisKept_refl split: option.splits)

lemma axisKept_prepareDrag: "axisKept (attrs st) (attrs (prepareDrag sap r st))"
  by (auto simp add: prepareDrag_def axisKept_refl axisKept_endDrag axisKept_prepareDrag_move
        split: sum.splits)

lemma axisKept_step: "axisKept (attrs st) (attrs (step sap i st))"
proof (cases i)
  case (Dom r)
  have "attrs (listen r (arrival r st)) = attrs st"
    by (simp add: listen_keeps arrival_def runTimers_def)
  then show ?thesis
    using Dom
      axisKept_prepareDrag[of "listen r (arrival r st)" sap r]
    by (simp add: step_def dispatch_def)
next
  case (InitDrag n off)
  then show ?thesis by (simp add: step_def axisKept_refl)
qed

lemma axisKept_run: "axisKept (attrs st) (attrs (run sap inputs st))"
proof (induction inputs arbitrary: st)
  case Nil
  show ?case by (simp add: axisKept_refl)
next
  case (Cons i inputs)
  show ?case
    using axisKept_step[of st sap i] Cons.IH[of "step sap i st"]
    by (auto intro: axisKept_trans)
qed

text \<open>
  C7. For a node whose drag constraint is 'horizontal', \<open>attrs.y\<close> after any sequence
  of events (drag moves among them) equals \<open>attrs.y\<close> before it; for the constraint
  'vertical' the same holds of \<open>attrs.x\<close>.
\<close>

theorem C7_constraint_locks_axis:
  "(dragConstraint (attrs st n) = ''horizontal''
      \<longrightarrow> attrs_y (attrs (run sap inputs st) n) = attrs_y (attrs st n))
   \<and> (dragConstraint (attrs st n) = ''vertical''
      \<longrightarrow> attrs_x (attrs (run sap inputs st) n) = attrs_x (attrs st n))"
  using axisKept_run[of st sap inputs] by (simp add: axisKept_def)

theorem C7_witness:
  "attrs_y (attrs (run storeAsGiven dragSequence (newStage (nodesWith ''horizontal'' noBounds))) 1) = 7
   \<and> attrs_x (attrs (run storeAsGiven dragSequence (newStage (nodesWith ''horizontal'' noBounds))) 1) = 38
   \<and> attrs_x (attrs (run storeAsGiven dragSequence (newStage (nodesWith ''vertical'' noBounds))) 1) = 3
   \<and> attrs_y (attrs (run storeAsGiven dragSequence (newStage (nodesWith ''vertical'' noBounds))) 1) = 52"
proof -
  have h: "dragConstraint (attrs (newStage (nodesWith ''horizontal'' noBounds)) 1) = ''horizontal''"
    by (simp add: newStage_def nodesWith_def)
  have v: "dragConstraint (attrs (newStage (nodesWith ''vertical'' noBounds)) 1) = ''vertical''"
    by (simp add: newStage_def nodesWith_def)
  have y0: "attrs_y (attrs (newStage (nodesWith ''horizontal'' noBounds)) 1) = 7"
    by (simp add: newStage_def nodesWith_def)
  have x0: "attrs_x (attrs (newStage (nodesWith ''vertical'' noBounds)) 1) = 3"
    by (simp add: newStage_def nodesWith_def)
  have 1: "attrs_y (attrs (run storeAsGiven dragSequence (newStage (nodesWith ''horizontal'' noBounds))) 1) = 7"
    using C7_constraint_locks_axis[of "newStage (nodesWith ''horizontal'' noBounds)" 1 storeAsGiven dragSequence]
      h y0 by simp
  have 2: "attrs_x (attrs (run storeAsGiven dragSequence (newStage (nodesWith ''vertical'' noBounds))) 1) = 3"
    using C7_constraint_locks_axis[of "newStage (nodesWith ''vertical'' noBounds)" 1 storeAsGiven dragSequence]
      v x0 by simp
  have 3: "attrs_x (attrs (run storeAsGiven dragSequence (newStage (nodesWith ''horizontal'' noBounds))) 1) = 38"
    by code_simp
  have 4: "attrs_y (attrs (run storeAsGiven dragSequence (newStage (nodesWith ''vertical'' noBounds))) 1) = 52"
    by code_simp
  from 1 2 3 4 show ?thesis by simp
qed

section \<open>Bounds of a drag\<close>

text \<open>
  C8. In a drag move the bounds are applied to the candidate position (pointer minus
  offset) one by one, and the result is what \<open>setAbsolutePosition\<close> receives: with
  \<open>{left: 10, right: 100}\<close> a candidate x of -5 becomes 10 and one of 500 becomes 100;
  a side that is not configured does not clamp. Unless the constraint locks the axis,
  the node's coordinate is the one stored for that position.
\<close>

theorem C8_bounds_clamp:
  assumes "drag_node st = Some n" and "getUserPosition st = Some pos"
    and "db = dragBounds (attrs st n)"
    and "cx = pos_x pos - pos_x (drag_offset st)" and "cy = pos_y pos - pos_y (drag_offset st)"
  shows "newNodePos st n pos =
           \<lparr>pos_x = clampHigh (right db) (clampLow (left db) cx),
            pos_y = clampHigh (bottom db) (clampLow (top db) cy)\<rparr>
         \<and> (left db = Some 10 \<and> right db = Some 100 \<and> cx = - 5
              \<longrightarrow> pos_x (newNodePos st n pos) = 10)
         \<and> (left db = Some 10 \<and> right db = Some 100 \<and> cx = 500
              \<longrightarrow> pos_x (newNodePos st n pos) = 100)
         \<and> (left db = None \<and> right db = None \<longrightarrow> pos_x (newNodePos st n pos) = cx)
         \<and> (top db = None \<and> bottom db = None \<longrightarrow> pos_y (newNodePos st n pos) = cy)
         \<and> (\<exists>st'. prepareDrag_move sap st = Inr st'
                \<and> (dragConstraint (attrs st n) \<noteq> ''vertical''
                     \<longrightarrow> attrs_x (attrs st' n) = pos_x (sap (attrs st) n (newNodePos st n pos)))
                \<and> (dragConstraint (attrs st n) \<noteq> ''horizontal''
                     \<longrightarrow> attrs_y (attrs st' n) = pos_y (sap (attrs st) n (newNodePos st n pos))))"
proof -
  have c: "newNodePos st n pos =
           \<lparr>pos_x = clampHigh (right db) (clampLow (left db) cx),
            pos_y = clampHigh (bottom db) (clampLow (top db) cy)\<rparr>"
    using assms(3,4,5) by (simp add: newNodePos_def boundsOverrides_clamp)
  have m: "\<exists>st'. prepareDrag_move sap st = Inr st'
                \<and> (dragConstraint (attrs st n) \<noteq> ''vertical''
                     \<longrightarrow> attrs_x (attrs st' n) = pos_x (sap (attrs st) n (newNodePos st n pos)))
                \<and> (dragConstraint (attrs st n) \<noteq> ''horizontal''
                     \<longrightarrow> attrs_y (attrs st' n) = pos_y (sap (attrs st) n (newNodePos st n pos)))"
    using assms(1,2) by (simp add: prepareDrag_move_def Let_def handleEvents_def)
  show ?thesis
    using m by (simp add: c clampLow_def clampHigh_def)
qed

theorem C8_witness:
  "pos_x (newNodePos (boundedDrag (- 5)) 1 \<lparr>pos_x = - 5, pos_y = 0\<rparr>) = 10
   \<and> pos_x (newNodePos (boundedDrag 500) 1 \<lparr>pos_x = 500, pos_y = 0\<rparr>) = 100
   \<and> pos_y (newNodePos (boundedDrag 500) 1 \<lparr>pos_x = 500, pos_y = 0\<rparr>) = 0
   \<and> (\<exists>st'. prepareDrag_move storeAsGiven (boundedDrag (- 5)) = Inr st'
          \<and> attrs_x (attrs st' 1) = 10)
   \<and> (\<exists>st'. prepareDrag_move storeAsGiven (boundedDrag 500) = Inr st'
          \<and> attrs_x (attrs st' 1) = 100)"
proof -
  let ?db = "\<lparr>left = Some 10, right = Some 100, top = None, bottom = None\<rparr>"
  have n: "drag_node (boundedDrag x) = Some 1" for x
    by (simp add: boundedDrag_def)
  have p: "getUserPosition (boundedDrag x) = Some \<lparr>pos_x = x, pos_y = 0\<rparr>" for x
    by (simp add: boundedDrag_def newStage_def getUserPosition_def getTouchPosition_def
          getMousePosition_def)
  have d: "?db = dragBounds (attrs (boundedDrag x) 1)" for x
    by (simp add: boundedDrag_def newStage_def nodesWith_def)
  have cx: "x = pos_x \<lparr>pos_x = x, pos_y = 0\<rparr> - pos_x (drag_offset (boundedDrag x))" for x
    by (simp add: boundedDrag_def newStage_def)
  have cy: "0 = pos_y \<lparr>pos_x = x, pos_y = 0\<rparr> - pos_y (drag_offset (boundedDrag x))" for x
    by (simp add: boundedDrag_def newStage_def)
  have dc: "dragConstraint (attrs (boundedDrag x) 1) = ''none''" for x
    by (simp add: boundedDrag_def newStage_def nodesWith_def)
  have lo: "pos_x (newNodePos (boundedDrag (- 5)) 1 \<lparr>pos_x = - 5, pos_y = 0\<rparr>) = 10"
    using C8_bounds_clamp[OF n p d cx cy, of "- 5" storeAsGiven]
    by (simp add: clampLow_def clampHigh_def)
  have hi: "pos_x (newNodePos (boundedDrag 500) 1 \<lparr>pos_x = 500, pos_y = 0\<rparr>) = 100
            \<and> pos_y (newNodePos (boundedDrag 500) 1 \<lparr>pos_x = 500, pos_y = 0\<rparr>) = 0"
    using C8_bounds_clamp[OF n p d cx cy, of 500 storeAsGiven]
    by (simp add: clampLow_def clampHigh_def)
  have mlo: "\<exists>st'. prepareDrag_move storeAsGiven (boundedDrag (- 5)) = Inr st'
          \<and> attrs_x (attrs st' 1) = 10"
    using C8_bounds_clamp[OF n p d cx cy, of "- 5" storeAsGiven] lo dc[of "- 5"]
    by (auto simp add: storeAsGiven_def clampLow_def clampHigh_def)
  have mhi: "\<exists>st'. prepareDrag_move storeAsGiven (boundedDrag 500) = Inr st'
          \<and> attrs_x (attrs st' 1) = 100"
    using C8_bounds_clamp[OF n p d cx cy, of 500 storeAsGiven] hi dc[of 500]
    by (auto simp add: storeAsGiven_def clampLow_def clampHigh_def)
  from lo hi mlo mhi show ?thesis by simp
qed

section \<open>The user position\<close>

lemma touchPos_beforeTraversal:
  "touchPos (beforeTraversal d evt st) \<noteq> touchPos st \<Longrightarrow>
     singleContact evt \<and> touchPos (beforeTraversal d evt st) \<noteq> None"
  by (auto simp add: beforeTraversal_def setMousePosition_def setTouchPosition_def Let_def
        singleContact_def split: prod.splits option.splits list.splits)

lemma touchPos_beforeTraversal_single:
  "singleContact evt \<Longrightarrow> touchPos (beforeTraversal d evt st) \<noteq> None"
  by (auto simp add: beforeTraversal_def setMousePosition_def setTouchPosition_def Let_def
        singleContact_def split: prod.splits option.splits list.splits)

lemma touchPos_handleStageEvent:
  "touchPos (handleStageEvent children d evt st) = touchPos (beforeTraversal d evt st)"
proof -
  obtain b st4 where t: "traverseLayers children (beforeTraversal d evt st) = (b, st4)"
    by (cases "traverseLayers children (beforeTraversal d evt st)")
  have "frame (beforeTraversal d evt st) st4"
    using frame_traverseLayers[of "beforeTraversal d evt st" children] t by simp
  then show ?thesis
    using t by (cases b) (simp_all add: handleStageEvent_eq frame_def split: option.splits)
qed

lemma beforeTraversal_flags:
  "touchPos (beforeTraversal d evt (st\<lparr>mouseDown := a, mouseUp := b, mouseMove := c\<rparr>))
     = touchPos (beforeTraversal d evt st)"
  "touchPos (beforeTraversal d evt (st\<lparr>touchStart := a, touchEnd := b, touchMove := c\<rparr>))
     = touchPos (beforeTraversal d evt st)"
  by (simp_all add: beforeTraversal_def setMousePosition_def setTouchPosition_def Let_def
        split: prod.splits option.splits list.splits)

lemma touchPos_listen:
  "touchPos (listen r st) \<noteq> touchPos st \<Longrightarrow>
     singleContact (raw_evt r) \<and> touchPos (listen r st) \<noteq> None"
  using touchPos_beforeTraversal[of "raw_dom r" "raw_evt r" st]
  by (cases "raw_kind r")
     (auto simp add: listen_def listen_mousedown_def listen_mousemove_def listen_mouseup_def
        listen_mouseover_def listen_mouseout_def listen_touchstart_def listen_touchmove_def
        listen_touchend_def touchPos_handleStageEvent beforeTraversal_flags handleEvents_def
        Let_def split: option.splits if_splits)

lemma touchPos_prepareDrag: "touchPos (prepareDrag sap r st) = touchPos st"
  by (auto simp add: prepareDrag_def prepareDrag_move_def endDrag_def Let_def handleEvents_def
        split: sum.splits option.splits if_splits)

lemma touchPos_step:
  "touchPos (step sap i st) \<noteq> touchPos st \<Longrightarrow>
     (\<exists>r. i = Dom r \<and> singleContact (raw_evt r)) \<and> touchPos (step sap i st) \<noteq> None"
proof (cases i)
  case (Dom r)
  assume a: "touchPos (step sap i st) \<noteq> touchPos st"
  let ?st1 = "arrival r st"
  have 1: "touchPos ?st1 = touchPos st" by (simp add: arrival_def runTimers_def)
  have 2: "touchPos (step sap i st) = touchPos (listen r ?st1)"
    using Dom by (simp add: step_def dispatch_def touchPos_prepareDrag)
  show ?thesis
    using a 1 2 touchPos_listen[of r ?st1] Dom by auto
next
  case (InitDrag n off)
  assume "touchPos (step sap i st) \<noteq> touchPos st"
  then show ?thesis using InitDrag by (simp add: step_def)
qed

lemma touchPos_run_defined:
  "touchPos st \<noteq> None \<Longrightarrow> touchPos (run sap inputs st) \<noteq> None"
proof (induction inputs arbitrary: st)
  case Nil
  then show ?case by simp
next
  case (Cons i inputs)
  have "touchPos (step sap i st) \<noteq> None"
    using touchPos_step[of sap i st] Cons.prems by (cases "touchPos (step sap i st) = touchPos st") auto
  then show ?case using Cons.IH by simp
qed

lemma touchPos_run_stale:
  "\<forall>r. Dom r \<in> set inputs \<longrightarrow> \<not> singleContact (raw_evt r) \<Longrightarrow>
     touchPos (run sap inputs st) = touchPos st"
proof (induction inputs arbitrary: st)
  case Nil
  then show ?case by simp
next
  case (Cons i inputs)
  have "touchPos (step sap i st) = touchPos st"
    using touchPos_step[of sap i st] Cons.prems by auto
  then show ?case using Cons.IH[of "step sap i st"] Cons.prems by simp
qed

lemma getUserPosition_touch:
  "touchPos st \<noteq> None \<Longrightarrow> getUserPosition st = touchPos st"
  by (auto simp add: getUserPosition_def getTouchPosition_def)

text \<open>
  C9. \<open>getUserPosition\<close> returns the touch position when one is defined and the mouse
  position otherwise. \<open>_setTouchPosition\<close> writes only for an event with exactly one
  contact and never clears the position: once a touch position is there, after every
  further sequence of events \<open>getUserPosition\<close> returns the touch position, and as
  long as no event with a single contact arrives it is the old one, whatever the mouse
  does.
\<close>

theorem C9_touch_position_sticks:
  "getUserPosition st = (case touchPos st of Some p \<Rightarrow> Some p | None \<Rightarrow> mousePos st)
   \<and> (\<not> singleContact evt \<longrightarrow> setTouchPosition d evt st = st)
   \<and> (singleContact evt \<longrightarrow> touchPos (handleStageEvent children d evt st) \<noteq> None)
   \<and> (touchPos st \<noteq> None \<longrightarrow>
        touchPos (run sap inputs st) \<noteq> None
        \<and> getUserPosition (run sap inputs st) = touchPos (run sap inputs st))
   \<and> (touchPos st \<noteq> None \<and> (\<forall>r. Dom r \<in> set inputs \<longrightarrow> \<not> singleContact (raw_evt r)) \<longrightarrow>
        getUserPosition (run sap inputs st) = touchPos st)"
proof -
  have 1: "getUserPosition st = (case touchPos st of Some p \<Rightarrow> Some p | None \<Rightarrow> mousePos st)"
    by (simp add: getUserPosition_def getTouchPosition_def getMousePosition_def
          split: option.splits)
  have 2: "\<not> singleContact evt \<Longrightarrow> setTouchPosition d evt st = st"
    by (auto simp add: setTouchPosition_def singleContact_def split: option.splits list.splits)
  have 3: "singleContact evt \<Longrightarrow> touchPos (handleStageEvent children d evt st) \<noteq> None"
    by (simp add: touchPos_handleStageEvent touchPos_beforeTraversal_single)
  have 4: "touchPos st \<noteq> None \<Longrightarrow> touchPos (run sap inputs st) \<noteq> None
        \<and> getUserPosition (run sap inputs st) = touchPos (run sap inputs st)"
    using touchPos_run_defined[of st sap inputs] getUserPosition_touch by blast
  have 5: "touchPos st \<noteq> None \<Longrightarrow> \<forall>r. Dom r \<in> set inputs \<longrightarrow> \<not> singleContact (raw_evt r) \<Longrightarrow>
        getUserPosition (run sap inputs st) = touchPos st"
    using touchPos_run_stale[of inputs sap st] getUserPosition_touch[of "run sap inputs st"]
    by simp
  from 1 2 3 4 5 show ?thesis by blast
qed

theorem C9_witness:
  "touchPos touched = Some \<lparr>pos_x = 5, pos_y = 5\<rparr>
   \<and> mousePos (run storeAsGiven [mouse DomMousemove 2000 25 5] touched)
       = Some \<lparr>pos_x = 25, pos_y = 5\<rparr>
   \<and> getUserPosition (run storeAsGiven [mouse DomMousemove 2000 25 5] touched)
       = Some \<lparr>pos_x = 5, pos_y = 5\<rparr>"
proof -
  have t: "touchPos touched = Some \<lparr>pos_x = 5, pos_y = 5\<rparr>" by code_simp
  have m: "mousePos (run storeAsGiven [mouse DomMousemove 2000 25 5] touched)
       = Some \<lparr>pos_x = 25, pos_y = 5\<rparr>" by code_simp
  have n: "\<forall>r. Dom r \<in> set [mouse DomMousemove 2000 25 5] \<longrightarrow> \<not> singleContact (raw_evt r)"
    by (auto simp add: mouse_def mouseRaw_def singleContact_def)
  have d: "touchPos touched \<noteq> None" using t by simp
  have "getUserPosition (run storeAsGiven [mouse DomMousemove 2000 25 5] touched) = touchPos touched"
    using C9_touch_position_sticks[of touched _ _ _ storeAsGiven "[mouse DomMousemove 2000 25 5]"] d n
    by blast
  with t m show ?thesis by simp
qed

section \<open>Throttling of move events\<close>

lemma arrival_sel:
  "lastEventTime (arrival r st) = lastEventTime st"
  "throttle (arrival r st) = throttle st"
  "clock (arrival r st) = raw_time r"
  "probed (arrival r st) = probed st"
  "emitted (arrival r st) = emitted st"
  by (simp_all add: arrival_def runTimers_def)












section \<open>The exit of the tracked target\<close>

lemma only_found_sel:
  assumes "st' = st\<lparr>targetFound := a, probed := b\<rparr>"
  shows "targetShape st' = targetShape st" and "emitted st' = emitted st"
    and "mouseoutShape st' = mouseoutShape st"
  using assms by simp_all

lemma targetShape_branches:
  "targetShape (noteTarget s st) = targetShape st"
  "targetShape (onmousedown s st) = targetShape st"
  "targetShape (onmouseup s st) = targetShape st"
  "targetShape (ontouchstart s st) = targetShape st"
  "targetShape (ontouchend s st) = targetShape st"
  "targetShape (onmouseover s st) = Some s"
  "targetShape (onmouseout s st) = None"
  "targetShape (handleEvents n ty st) = targetShape st"
  "targetShape (snd (isNewTarget s st)) = targetShape st"
  by (simp_all add: branch_upd)

lemma detectEvent_miss:
  "\<not> hit s st \<Longrightarrow>
     detectEvent s st =
       (if \<not> drag_moving st \<and> isTarget s st
        then (True, st\<lparr>probed := probed st @ [shape_id s], targetShape := None,
                       targetFound := True, mouseoutShape := Some s\<rparr>)
        else (False, st\<lparr>probed := probed st @ [shape_id s],
                        targetFound := (isTarget s st \<or> targetFound st)\<rparr>))"
  by (simp add: detectEvent_def Let_def branch_upd hit_upd)

lemma detectEvent_clears_target:
  assumes "detectEvent s st = (True, st')" and "targetShape st = Some t"
    and "targetShape st' = None"
  shows "emitted st' = emitted st \<and> mouseoutShape st' = Some s \<and> shape_id s = shape_id t"
proof (cases "hit s st")
  case True
  then have "targetShape (snd (detectEvent s st)) \<noteq> None"
    using assms(2)
    by (simp add: detectEvent_def Let_def targetShape_branches noteTarget_upd hit_upd)
  then show ?thesis using assms(1,3) by simp
next
  case False
  have c: "\<not> drag_moving st \<and> isTarget s st"
    using assms(1) detectEvent_miss[OF False] by (auto split: if_splits)
  then have "st' = st\<lparr>probed := probed st @ [shape_id s], targetShape := None,
                       targetFound := True, mouseoutShape := Some s\<rparr>"
    using assms(1) detectEvent_miss[OF False] by simp
  moreover have "shape_id s = shape_id t"
    using c assms(2) by (simp add: isTarget_def)
  ultimately show ?thesis by simp
qed

lemma handleStageEvent_clears_target:
  assumes "targetShape st = Some t" and "targetShape (handleStageEvent children d evt st) = None"
  shows "emitted (handleStageEvent children d evt st) = emitted st
         \<and> (\<exists>s. mouseoutShape (handleStageEvent children d evt st) = Some s
                \<and> shape_id s = shape_id t)"
proof -
  let ?st3 = "beforeTraversal d evt st"
  obtain b st4 where tr: "firstHit (visitOrder children) ?st3 = (b, st4)"
    by (cases "firstHit (visitOrder children) ?st3")
  have t3: "targetShape ?st3 = Some t" and e3: "emitted ?st3 = emitted st"
    using assms(1) by (simp_all add: beforeTraversal_sel)
  show ?thesis
  proof (cases b)
    case False
    with tr have tr': "firstHit (visitOrder children) ?st3 = (False, st4)" by simp
    note 1 = firstHit_False[OF tr']
    have "targetShape st4 = Some t"
      using only_found_sel(1)[OF 1] t3 by simp
    then have "targetShape (handleStageEvent children d evt st) = Some t"
      using tr'
      by (simp add: handleStageEvent_eq traverseLayers_firstHit split: option.splits)
    then show ?thesis using assms(2) by simp
  next
    case True
    with tr have tr': "firstHit (visitOrder children) ?st3 = (True, st4)" by simp
    then have h: "handleStageEvent children d evt st = st4"
      by (simp add: handleStageEvent_eq traverseLayers_firstHit)
    from firstHit_True[OF tr']
    obtain s st1 where
      1: "st1 = ?st3\<lparr>targetFound := targetFound st1, probed := probed st1\<rparr>" and
      d: "detectEvent s st1 = (True, st4)"
      by blast
    have t1: "targetShape st1 = Some t"
      using only_found_sel(1)[OF 1] t3 by simp
    have e1: "emitted st1 = emitted st"
      using only_found_sel(2)[OF 1] e3 by simp
    have n: "targetShape st4 = None" using assms(2) h by simp
    show ?thesis
      using detectEvent_clears_target[OF d t1 n] e1 by (simp add: h)
  qed
qed

lemma handleStageEvent_flush:
  assumes "mouseoutShape st = Some m"
    and "\<not> fst (traverseLayers children (beforeTraversal d evt st))"
  shows "emitted (handleStageEvent children d evt st) = emitted st @ [(shape_id m, Mouseout)]
         \<and> mouseoutShape (handleStageEvent children d evt st) = None"
proof -
  let ?st3 = "beforeTraversal d evt st"
  obtain st4 where tr: "firstHit (visitOrder children) ?st3 = (False, st4)"
    using assms(2)
    by (cases "firstHit (visitOrder children) ?st3") (simp add: traverseLayers_firstHit)
  note 1 = firstHit_False[OF tr]
  have m4: "mouseoutShape st4 = Some m"
    using only_found_sel(3)[OF 1] assms(1) by (simp add: beforeTraversal_sel)
  have e4: "emitted st4 = emitted st"
    using only_found_sel(2)[OF 1] by (simp add: beforeTraversal_sel)
  show ?thesis
    using tr m4 e4 by (simp add: handleStageEvent_eq traverseLayers_firstHit)
qed


lemma detectEvent_enter_after_exit:
  assumes "hit s st" and "\<not> drag_moving st" and "\<not> mouseDown st" and "\<not> mouseUp st"
    and "\<not> touchStart st" and "\<not> touchEnd st" and "targetShape st = None"
    and "mouseoutShape st = Some m"
  shows "emitted (snd (detectEvent s st))
           = emitted st @ [(shape_id m, Mouseout), (shape_id s, Mouseover)]"
  using assms
  by (simp add: detectEvent_def Let_def branch_upd hit_upd isNewTarget_def isTarget_def)

section \<open>What one call of detectEvent emits and arms\<close>

lemma armed_found:
  "clickArmed (st\<lparr>probed := p, targetFound := tf\<rparr>) = clickArmed st"
  "tapArmed (st\<lparr>probed := p, targetFound := tf\<rparr>) = tapArmed st"
  "clickArmed (st\<lparr>probed := p\<rparr>) = clickArmed st"
  "tapArmed (st\<lparr>probed := p\<rparr>) = tapArmed st"
  by (simp_all add: clickArmed_def tapArmed_def)

lemma emitted_detectEvent:
  "emitted (snd (detectEvent s st)) =
     emitted st @
     (if hit s st then
        (if \<not> drag_moving st \<and> mouseDown st then [(shape_id s, Mousedown)]
         else if mouseUp st then
           (shape_id s, Mouseup)
           # (if clickArmed st
              then (shape_id s, Click)
                   # (if inDoubleClickWindow st (shape_id s) then [(shape_id s, Dblclick)] else [])
              else [])
         else if \<not> drag_moving st \<and> touchStart st then [(shape_id s, Touchstart)]
         else if touchEnd st then
           (shape_id s, Touchend)
           # (if tapArmed st
              then (shape_id s, Tap)
                   # (if inDoubleClickWindow st (shape_id s) then [(shape_id s, Dbltap)] else [])
              else [])
         else if \<not> drag_moving st \<and> fst (isNewTarget s (noteTarget s st)) then
           (case mouseoutShape (snd (isNewTarget s (noteTarget s st))) of
              None \<Rightarrow> [] | Some m \<Rightarrow> [(shape_id m, Mouseout)])
           @ [(shape_id s, Mouseover)]
         else if \<not> drag_moving st \<and> mouseMove st then [(shape_id s, Mousemove)]
         else if \<not> drag_moving st \<and> touchMove st then [(shape_id s, Touchmove)]
         else [])
      else [])"
  by (simp add: detectEvent_def Let_def branch_upd hit_upd armed_found isNewTarget_def
        split: option.splits)


lemma emittedSince_detectEvent:
  "emittedSince st (snd (detectEvent s st)) =
     (if hit s st then
        (if \<not> drag_moving st \<and> mouseDown st then [(shape_id s, Mousedown)]
         else if mouseUp st then
           (shape_id s, Mouseup)
           # (if clickArmed st
              then (shape_id s, Click)
                   # (if inDoubleClickWindow st (shape_id s) then [(shape_id s, Dblclick)] else [])
              else [])
         else if \<not> drag_moving st \<and> touchStart st then [(shape_id s, Touchstart)]
         else if touchEnd st then
           (shape_id s, Touchend)
           # (if tapArmed st
              then (shape_id s, Tap)
                   # (if inDoubleClickWindow st (shape_id s) then [(shape_id s, Dbltap)] else [])
              else [])
         else if \<not> drag_moving st \<and> fst (isNewTarget s (noteTarget s st)) then
           (case mouseoutShape (snd (isNewTarget s (noteTarget s st))) of
              None \<Rightarrow> [] | Some m \<Rightarrow> [(shape_id m, Mouseout)])
           @ [(shape_id s, Mouseover)]
         else if \<not> drag_moving st \<and> mouseMove st then [(shape_id s, Mousemove)]
         else if \<not> drag_moving st \<and> touchMove st then [(shape_id s, Touchmove)]
         else [])
      else [])"
  by (simp add: emittedSince_def emitted_detectEvent)

lemma window_detectEvent:
  "inDoubleClickWindow (snd (detectEvent s st)) =
     (if qualifyingRelease s st then (inDoubleClickWindow st)(shape_id s := True)
      else inDoubleClickWindow st)"
  "timers (snd (detectEvent s st)) =
     (if qualifyingRelease s st then timers st @ [(clock st + dblClickWindow st, shape_id s)]
      else timers st)"
  by (simp_all add: detectEvent_def Let_def branch_upd hit_upd armed_found qualifyingRelease_def)

lemma starts_detectEvent:
  "clickStart (snd (detectEvent s st)) = (clickStart st \<or> hit s st \<and> \<not> drag_moving st \<and> mouseDown st)"
  "tapStart (snd (detectEvent s st)) =
     (tapStart st \<or> hit s st \<and> \<not> (\<not> drag_moving st \<and> mouseDown st) \<and> \<not> mouseUp st
                    \<and> \<not> drag_moving st \<and> touchStart st)"
  by (simp_all add: detectEvent_def Let_def branch_upd hit_upd)

lemma click_fired:
  "(n, Click) \<in> set (emittedSince st (snd (detectEvent s st)))
     \<longleftrightarrow> n = shape_id s \<and> hit s st \<and> \<not> (\<not> drag_moving st \<and> mouseDown st) \<and> mouseUp st
         \<and> clickArmed st"
  by (auto simp add: emittedSince_detectEvent split: option.splits if_splits)

lemma tap_fired:
  "(n, Tap) \<in> set (emittedSince st (snd (detectEvent s st)))
     \<longleftrightarrow> n = shape_id s \<and> hit s st \<and> \<not> (\<not> drag_moving st \<and> mouseDown st) \<and> \<not> mouseUp st
         \<and> \<not> (\<not> drag_moving st \<and> touchStart st) \<and> touchEnd st \<and> tapArmed st"
  by (auto simp add: emittedSince_detectEvent split: option.splits if_splits)

lemma press_fired:
  "(shape_id s, Mousedown) \<in> set (emittedSince st (snd (detectEvent s st)))
     \<longleftrightarrow> hit s st \<and> \<not> drag_moving st \<and> mouseDown st"
  "(shape_id s, Touchstart) \<in> set (emittedSince st (snd (detectEvent s st)))
     \<longleftrightarrow> hit s st \<and> \<not> (\<not> drag_moving st \<and> mouseDown st) \<and> \<not> mouseUp st
         \<and> \<not> drag_moving st \<and> touchStart st"
  by (auto simp add: emittedSince_detectEvent split: option.splits if_splits)

section \<open>The double-click window\<close>

lemma fold_timers:
  "fold (\<lambda>(due, j) f. if due \<le> now then f(j := False) else f) ts f i
     \<longleftrightarrow> f i \<and> \<not> (\<exists>due. (due, i) \<in> set ts \<and> due \<le> now)"
proof (induction ts arbitrary: f)
  case Nil
  show ?case by simp
next
  case (Cons t ts)
  obtain due j where t: "t = (due, j)" by (cases t)
  show ?case
    unfolding t using Cons.IH by (auto simp add: fun_upd_def)
qed

lemma runTimers_flag:
  "inDoubleClickWindow (runTimers now st) i
     \<longleftrightarrow> inDoubleClickWindow st i \<and> \<not> (\<exists>due. (due, i) \<in> set (timers st) \<and> due \<le> now)"
  by (simp add: runTimers_def fold_timers)

lemma runTimers_pending:
  "set (timers (runTimers now st)) = {(due, i). (due, i) \<in> set (timers st) \<and> now < due}"
  by (auto simp add: runTimers_def)

lemma dblclick_fired:
  "(n, Dblclick) \<in> set (emittedSince st (snd (detectEvent s st)))
     \<longleftrightarrow> (n, Click) \<in> set (emittedSince st (snd (detectEvent s st)))
         \<and> inDoubleClickWindow st (shape_id s)"
  "(n, Dbltap) \<in> set (emittedSince st (snd (detectEvent s st)))
     \<longleftrightarrow> (n, Tap) \<in> set (emittedSince st (snd (detectEvent s st)))
         \<and> inDoubleClickWindow st (shape_id s)"
  by (auto simp add: emittedSince_detectEvent split: option.splits if_splits)

text \<open>
  C5, as the code has it. A qualifying release sets the flag of the shape and starts a
  new timeout that clears it \<open>dblClickWindow\<close> (400) ms later; the timeouts of earlier
  releases stay. When the timeouts due at a later time have run, the flag is still set
  if and only if that time is before the new expiry and before the expiry of every
  timeout that was pending for the shape. The double variant fires with a click or tap
  exactly when the flag is set.
\<close>

theorem C5_window_ends_at_the_earliest_expiry:
  "(qualifyingRelease s st \<longrightarrow>
      inDoubleClickWindow (snd (detectEvent s st)) (shape_id s)
      \<and> timers (snd (detectEvent s st)) = timers st @ [(clock st + dblClickWindow st, shape_id s)]
      \<and> (inDoubleClickWindow (runTimers now (snd (detectEvent s st))) (shape_id s)
          \<longleftrightarrow> now < clock st + dblClickWindow st
              \<and> \<not> (\<exists>due. (due, shape_id s) \<in> set (timers st) \<and> due \<le> now)))
   \<and> ((n, Dblclick) \<in> set (emittedSince st (snd (detectEvent s st)))
        \<longleftrightarrow> (n, Click) \<in> set (emittedSince st (snd (detectEvent s st)))
            \<and> inDoubleClickWindow st (shape_id s))
   \<and> ((n, Dbltap) \<in> set (emittedSince st (snd (detectEvent s st)))
        \<longleftrightarrow> (n, Tap) \<in> set (emittedSince st (snd (detectEvent s st)))
            \<and> inDoubleClickWindow st (shape_id s))"
proof -
  have "inDoubleClickWindow (snd (detectEvent s st)) (shape_id s)
      \<and> timers (snd (detectEvent s st)) = timers st @ [(clock st + dblClickWindow st, shape_id s)]
      \<and> (inDoubleClickWindow (runTimers now (snd (detectEvent s st))) (shape_id s)
          \<longleftrightarrow> now < clock st + dblClickWindow st
              \<and> \<not> (\<exists>due. (due, shape_id s) \<in> set (timers st) \<and> due \<le> now))"
    if q: "qualifyingRelease s st"
    using q by (auto simp add: runTimers_flag window_detectEvent)
  then show ?thesis
    using dblclick_fired[of n st s] by blast
qed

theorem C5_witness:
  "timers secondRelease = [(1410, 1)] \<and> clock secondRelease = 1310
   \<and> (1, Dblclick) \<in> set (emittedSince secondRelease (snd (detectEvent (strip 1 0 10) secondRelease)))
   \<and> inDoubleClickWindow (runTimers 1400 (snd (detectEvent (strip 1 0 10) secondRelease))) 1
   \<and> \<not> inDoubleClickWindow (runTimers 1610 (snd (detectEvent (strip 1 0 10) secondRelease))) 1"
proof -
  have q: "qualifyingRelease (strip 1 0 10) secondRelease" by code_simp
  have v: "timers secondRelease = [(1410, 1)]" "clock secondRelease = 1310"
    "dblClickWindow secondRelease = 400" "shape_id (strip 1 0 10) = 1"
    "inDoubleClickWindow secondRelease 1"
    by code_simp+
  have c: "(1, Click) \<in> set (emittedSince secondRelease (snd (detectEvent (strip 1 0 10) secondRelease)))"
    by code_simp
  have d: "(1, Dblclick) \<in> set (emittedSince secondRelease (snd (detectEvent (strip 1 0 10) secondRelease)))"
    using C5_window_ends_at_the_earliest_expiry[of "strip 1 0 10" secondRelease _ 1] c v by simp
  have a: "inDoubleClickWindow (runTimers 1400 (snd (detectEvent (strip 1 0 10) secondRelease))) 1"
    using C5_window_ends_at_the_earliest_expiry[of "strip 1 0 10" secondRelease 1400] q v by simp
  have b: "\<not> inDoubleClickWindow (runTimers 1610 (snd (detectEvent (strip 1 0 10) secondRelease))) 1"
    using C5_window_ends_at_the_earliest_expiry[of "strip 1 0 10" secondRelease 1610] q v by simp
  from v d a b show ?thesis by simp
qed

text \<open>
  The claim as it was stated fails: the third release (time 1610) comes 300 ms after
  the second (time 1310), which fired a double click, and 600 ms after the first
  (time 1010); the timeout of the first release has cleared the flag at time 1410, and
  the third release fires no double click.
\<close>

theorem C5_counterexample:
  "emitted (run storeAsGiven threeClicks (newStage plainNodes))
     = [(1, Mousedown), (1, Mouseup), (1, Click),
        (1, Mousedown), (1, Mouseup), (1, Click), (1, Dblclick),
        (1, Mousedown), (1, Mouseup), (1, Click)]
   \<and> (1610 :: int) - 1310 < dblClickWindow (newStage plainNodes)
   \<and> dblClickWindow (newStage plainNodes) < (1610 :: int) - 1010"
  by code_simp

section \<open>Enter and exit\<close>

text \<open>
  C1. The claim: on a change of target the mouseout of the old target comes before the
  mouseover of the new one, and the number of mouseover emissions minus the number of
  mouseout emissions is always 0 or 1. The code at the input \<open>enterLeaveEnter\<close>:
  the mouseover branch runs the stored mouseout of shape 1 and leaves it stored (the
  flush at the end of \<open>_handleStageEvent\<close> clears it, this branch does not), so the
  last event runs the mouseout of shape 1 a second time and the difference is -1.
\<close>

theorem C1_stored_mouseout_runs_twice:
  "emitted (run storeAsGiven (take 2 enterLeaveEnter) (newStage plainNodes))
     = [(1, Mouseover), (1, Mouseout), (2, Mouseover)]
   \<and> mouseoutShape (run storeAsGiven (take 2 enterLeaveEnter) (newStage plainNodes)) \<noteq> None
   \<and> emitted (run storeAsGiven enterLeaveEnter (newStage plainNodes))
     = [(1, Mouseover), (1, Mouseout), (2, Mouseover), (2, Mouseout), (1, Mouseout)]
   \<and> enterMinusExit (run storeAsGiven enterLeaveEnter (newStage plainNodes)) = - 1"
  by code_simp

section \<open>The balance of enter and exit\<close>

lemma isNewTarget_noteTarget:
  "fst (isNewTarget s (noteTarget s (st\<lparr>probed := p\<rparr>))) = fst (isNewTarget s st)"
  by (auto simp add: isNewTarget_def noteTarget_def isTarget_def split: option.splits)

lemma noted_sel:
  "hit s (noteTarget s (st\<lparr>probed := p\<rparr>)) = hit s st"
  "isTarget s (noteTarget s (st\<lparr>probed := p\<rparr>)) = isTarget s st"
  "mouseDown (noteTarget s (st\<lparr>probed := p\<rparr>)) = mouseDown st"
  "mouseUp (noteTarget s (st\<lparr>probed := p\<rparr>)) = mouseUp st"
  "touchStart (noteTarget s (st\<lparr>probed := p\<rparr>)) = touchStart st"
  "touchEnd (noteTarget s (st\<lparr>probed := p\<rparr>)) = touchEnd st"
  "mouseMove (noteTarget s (st\<lparr>probed := p\<rparr>)) = mouseMove st"
  "touchMove (noteTarget s (st\<lparr>probed := p\<rparr>)) = touchMove st"
  "targetShape (noteTarget s (st\<lparr>probed := p\<rparr>)) = targetShape st"
  "mouseoutShape (noteTarget s (st\<lparr>probed := p\<rparr>)) = mouseoutShape st"
  by (simp_all add: noteTarget_upd hit_upd)

lemma target_detectEvent:
  "targetShape (snd (detectEvent s st)) =
     (if entering s st then Some s
      else if \<not> hit s st \<and> \<not> drag_moving st \<and> isTarget s st then None
      else targetShape st)"
  by (simp add: detectEvent_def Let_def targetShape_branches isNewTarget_noteTarget
        entering_def noted_sel)

lemma mouseoutShape_branches:
  "mouseoutShape (onmousedown s st) = mouseoutShape st"
  "mouseoutShape (onmouseup s st) = mouseoutShape st"
  "mouseoutShape (ontouchstart s st) = mouseoutShape st"
  "mouseoutShape (ontouchend s st) = mouseoutShape st"
  "mouseoutShape (onmouseover s st) = mouseoutShape st"
  "mouseoutShape (onmouseout s st) = Some s"
  "mouseoutShape (handleEvents n ty st) = mouseoutShape st"
  by (simp_all add: branch_upd)

lemma mouseoutShape_isNewTarget:
  "mouseoutShape (snd (isNewTarget s (noteTarget s (st\<lparr>probed := p\<rparr>)))) =
     (case targetShape st of
        None \<Rightarrow> mouseoutShape st
      | Some old \<Rightarrow>
          (if fst (isNewTarget s st) \<and> eventListeners old then Some old else mouseoutShape st))"
  by (auto simp add: isNewTarget_def noteTarget_def isTarget_def split: option.splits)

lemma mouseout_detectEvent:
  "mouseoutShape (snd (detectEvent s st)) =
     (if entering s st then
        (case targetShape st of
           None \<Rightarrow> mouseoutShape st
         | Some old \<Rightarrow> (if eventListeners old then Some old else mouseoutShape st))
      else if \<not> hit s st \<and> \<not> drag_moving st \<and> isTarget s st then Some s
      else mouseoutShape st)"
  by (simp add: detectEvent_def Let_def mouseoutShape_branches isNewTarget_noteTarget
        mouseoutShape_isNewTarget entering_def noted_sel split: option.splits)

lemma countOf_append: "countOf ty (xs @ ys) = countOf ty xs + countOf ty ys"
  by (simp add: countOf_def)

lemma countOf_simps:
  "countOf ty [] = 0"
  "countOf ty ((n, ty') # es) = (if ty' = ty then 1 else 0) + countOf ty es"
  by (simp_all add: countOf_def)

lemma balance_detectEvent:
  "enterMinusExit (snd (detectEvent s st)) =
     enterMinusExit st
     + (if entering s st
           \<and> (case targetShape st of
                 None \<Rightarrow> mouseoutShape st = None
               | Some old \<Rightarrow> \<not> eventListeners old \<and> mouseoutShape st = None)
        then 1 else 0)"
  by (auto simp add: enterMinusExit_def emitted_detectEvent countOf_append countOf_simps
        entering_def isNewTarget_upd noteTarget_upd isNewTarget_def isTarget_def
        split: option.splits)

lemma balanced_detectEvent:
  assumes "balanced st" and "eventListeners s"
  shows "balanced (snd (detectEvent s st))"
  using assms
  by (auto simp add: balanced_def balance_detectEvent target_detectEvent mouseout_detectEvent
        split: option.splits if_splits)


lemma balanced_firstHit:
  "balanced st \<Longrightarrow> \<forall>s\<in>set ss. eventListeners s \<Longrightarrow> balanced (snd (firstHit ss st))"
proof (induction ss arbitrary: st)
  case Nil
  then show ?case by simp
next
  case (Cons s ss)
  obtain b st1 where d: "detectEvent s st = (b, st1)"
    by (cases "detectEvent s st")
  have "balanced st1"
    using balanced_detectEvent[of st s] Cons.prems d by simp
  then show ?case
    using d Cons.IH[of st1] Cons.prems by (cases b) simp_all
qed

lemma balanced_cong:
  "emitted st' = emitted st \<Longrightarrow> targetShape st' = targetShape st
     \<Longrightarrow> mouseoutShape st' = mouseoutShape st \<Longrightarrow> balanced st' = balanced st"
  by (simp add: balanced_def enterMinusExit_def)

lemma balanced_handleStageEvent:
  assumes "balanced st" and "\<forall>s\<in>set (visitOrder children). eventListeners s"
  shows "balanced (handleStageEvent children d evt st)"
proof -
  let ?st3 = "beforeTraversal d evt st"
  obtain b st4 where tr: "firstHit (visitOrder children) ?st3 = (b, st4)"
    by (cases "firstHit (visitOrder children) ?st3")
  have "balanced ?st3"
    using assms(1) balanced_cong[of ?st3 st] by (simp add: beforeTraversal_sel)
  then have 4: "balanced st4"
    using balanced_firstHit[of ?st3 "visitOrder children"] assms(2) tr by simp
  show ?thesis
  proof (cases b)
    case True
    then show ?thesis
      using tr 4 by (simp add: handleStageEvent_eq traverseLayers_firstHit)
  next
    case False
    then show ?thesis
      using tr 4
      by (auto simp add: handleStageEvent_eq traverseLayers_firstHit balanced_def
            enterMinusExit_def countOf_append countOf_simps split: option.splits)
  qed
qed

lemma balanced_flags:
  "balanced (st\<lparr>mouseDown := a, mouseUp := b, mouseMove := c\<rparr>) = balanced st"
  "balanced (st\<lparr>touchStart := a, touchEnd := b, touchMove := c\<rparr>) = balanced st"
  "balanced (st\<lparr>clickStart := a\<rparr>) = balanced st"
  "balanced (st\<lparr>tapStart := a\<rparr>) = balanced st"
  by (simp_all add: balanced_def enterMinusExit_def)

lemma balanced_listen_mouseout: "balanced st \<Longrightarrow> balanced (listen_mouseout st)"
  by (auto simp add: listen_mouseout_def Let_def handleEvents_def balanced_def
        enterMinusExit_def countOf_append countOf_simps split: option.splits if_splits)

lemma balanced_listen:
  assumes "balanced st" and "\<forall>s\<in>set (visitOrder (raw_children r)). eventListeners s"
  shows "balanced (listen r st)"
  using assms balanced_listen_mouseout[of st]
  by (cases "raw_kind r")
     (simp_all add: listen_def listen_mousedown_def listen_mousemove_def listen_mouseup_def
        listen_mouseover_def listen_touchstart_def listen_touchmove_def listen_touchend_def
        balanced_handleStageEvent balanced_flags)

lemma balanced_arrival: "balanced (arrival r st) = balanced st"
  by (simp add: arrival_def runTimers_def balanced_def enterMinusExit_def)

lemma balanced_prepareDrag: "balanced st \<Longrightarrow> balanced (prepareDrag sap r st)"
  by (auto simp add: prepareDrag_def prepareDrag_move_def endDrag_def Let_def handleEvents_def
        balanced_def enterMinusExit_def countOf_append countOf_simps
        split: sum.splits option.splits if_splits)

lemma balanced_step:
  assumes "balanced st"
    and "\<forall>r. i = Dom r \<longrightarrow> (\<forall>s\<in>set (visitOrder (raw_children r)). eventListeners s)"
  shows "balanced (step sap i st)"
proof (cases i)
  case (Dom r)
  then show ?thesis
    using assms balanced_listen[of "arrival r st" r]
    by (simp add: step_def dispatch_def balanced_prepareDrag balanced_arrival)
next
  case (InitDrag n off)
  then show ?thesis
    using assms(1) by (simp add: step_def balanced_def enterMinusExit_def)
qed

lemma balanced_run:
  "balanced st \<Longrightarrow>
   \<forall>r. Dom r \<in> set inputs \<longrightarrow> (\<forall>s\<in>set (visitOrder (raw_children r)). eventListeners s) \<Longrightarrow>
   balanced (run sap inputs st)"
proof (induction inputs arbitrary: st)
  case Nil
  then show ?case by simp
next
  case (Cons i inputs)
  have "balanced (step sap i st)"
    using balanced_step[of st i sap] Cons.prems by simp
  then show ?case using Cons.IH[of "step sap i st"] Cons.prems by simp
qed

text \<open>
  One half of the balance holds on every run from a new stage whose shapes have
  listeners: there is never more than one enter that no exit has matched.
\<close>

lemma enter_minus_exit_at_most_one:
  assumes "\<forall>r. Dom r \<in> set inputs \<longrightarrow> (\<forall>s\<in>set (visitOrder (raw_children r)). eventListeners s)"
  shows "enterMinusExit (run sap inputs (newStage a)) \<le> 1"
proof -
  have "balanced (newStage a)"
    by (simp add: balanced_def enterMinusExit_def newStage_def countOf_simps)
  then have "balanced (run sap inputs (newStage a))"
    using balanced_run assms by blast
  then show ?thesis by (simp add: balanced_def split: if_splits)
qed

text \<open>
  The order holds as well: when a call of \<open>_detectEvent\<close> moves the target from one
  shape with listeners to another, it emits the mouseout of the old target and then
  the mouseover of the new one, and nothing else.
\<close>

lemma exit_before_enter:
  assumes "targetShape st = Some old" and "eventListeners old"
    and "targetShape (snd (detectEvent s st)) = Some s" and "shape_id s \<noteq> shape_id old"
  shows "emittedSince st (snd (detectEvent s st))
           = [(shape_id old, Mouseout), (shape_id s, Mouseover)]"
proof -
  have e: "entering s st"
    using assms(1,3,4) by (auto simp add: target_detectEvent split: if_splits)
  then show ?thesis
    using assms(1,2)
    by (auto simp add: emittedSince_detectEvent entering_def isNewTarget_upd noteTarget_upd
          isNewTarget_def isTarget_def split: option.splits)
qed

section \<open>The call that consumes an event\<close>

lemma only_found_more:
  assumes "st' = st\<lparr>targetFound := a, probed := b\<rparr>"
  shows "hit s st' = hit s st" and "isTarget s st' = isTarget s st"
    and "mouseDown st' = mouseDown st" and "mouseUp st' = mouseUp st"
    and "touchStart st' = touchStart st" and "touchEnd st' = touchEnd st"
    and "drag_moving st' = drag_moving st" and "clickArmed st' = clickArmed st"
    and "tapArmed st' = tapArmed st" and "clickStart st' = clickStart st"
    and "tapStart st' = tapStart st" and "inDoubleClickWindow st' = inDoubleClickWindow st"
    and "emittedSince st' x = emittedSince st x"
  using assms
  by (simp_all add: hit_def isTarget_def getUserPosition_def getTouchPosition_def
        getMousePosition_def clickArmed_def tapArmed_def emittedSince_def split: option.splits)

lemma firstHit_consumer:
  "\<exists>st1. st1 = st\<lparr>targetFound := targetFound st1, probed := probed st1\<rparr>
      \<and> (case consumer ss st of
            None \<Rightarrow> firstHit ss st = (False, st1)
          | Some s \<Rightarrow> s \<in> set ss \<and> fst (detectEvent s st1) \<and> detectEvent s st1 = firstHit ss st)"
proof (induction ss arbitrary: st)
  case Nil
  have "st = st\<lparr>targetFound := targetFound st, probed := probed st\<rparr>" by simp
  then show ?case by (intro exI[of _ st]) simp
next
  case (Cons s ss)
  obtain b st1 where d: "detectEvent s st = (b, st1)"
    by (cases "detectEvent s st")
  show ?case
  proof (cases b)
    case True
    have "st = st\<lparr>targetFound := targetFound st, probed := probed st\<rparr>" by simp
    then show ?thesis
      using d True by (intro exI[of _ st]) simp
  next
    case False
    with d have d': "detectEvent s st = (False, st1)" by simp
    note 1 = detectEvent_False[OF d']
    from Cons.IH[of st1] obtain st2 where
      2: "st2 = st1\<lparr>targetFound := targetFound st2, probed := probed st2\<rparr>" and
      c: "case consumer ss st1 of
            None \<Rightarrow> firstHit ss st1 = (False, st2)
          | Some x \<Rightarrow> x \<in> set ss \<and> fst (detectEvent x st2) \<and> detectEvent x st2 = firstHit ss st1"
      by blast
    have 3: "st2 = st\<lparr>targetFound := targetFound st2, probed := probed st2\<rparr>"
      by (subst 2, subst 1) simp
    show ?thesis
      using 3 c d' by (intro exI[of _ st2]) (auto split: option.splits)
  qed
qed


lemma consumer_emits:
  "\<exists>st1. st1 = st\<lparr>targetFound := targetFound st1, probed := probed st1\<rparr>
      \<and> (case consumer ss st of
            None \<Rightarrow> \<not> fst (firstHit ss st) \<and> emittedSince st (snd (firstHit ss st)) = []
          | Some s \<Rightarrow> fst (firstHit ss st) \<and> snd (firstHit ss st) = snd (detectEvent s st1)
               \<and> emittedSince st (snd (firstHit ss st)) = emittedSince st1 (snd (detectEvent s st1)))"
proof -
  from firstHit_consumer[of st ss] obtain st1 where
    1: "st1 = st\<lparr>targetFound := targetFound st1, probed := probed st1\<rparr>" and
    c: "case consumer ss st of
            None \<Rightarrow> firstHit ss st = (False, st1)
          | Some s \<Rightarrow> s \<in> set ss \<and> fst (detectEvent s st1) \<and> detectEvent s st1 = firstHit ss st"
    by blast
  have e: "emittedSince st x = emittedSince st1 x" for x
    using only_found_more(13)[OF 1] by simp
  have n: "emittedSince st1 st1 = []" by (simp add: emittedSince_def)
  show ?thesis
  proof (cases "consumer ss st")
    case None
    then have "firstHit ss st = (False, st1)" using c by simp
    then show ?thesis using 1 None e n by (intro exI[of _ st1]) simp
  next
    case (Some s)
    have c': "s \<in> set ss \<and> fst (detectEvent s st1) \<and> detectEvent s st1 = firstHit ss st"
      using c unfolding Some option.case .
    have "fst (detectEvent s st1)" and "firstHit ss st = detectEvent s st1"
      by (rule c'[THEN conjunct2, THEN conjunct1], rule c'[THEN conjunct2, THEN conjunct2, symmetric])
    then show ?thesis using 1 Some e by (intro exI[of _ st1]) simp
  qed
qed

lemma click_in_firstHit:
  "(n, Click) \<in> set (emittedSince st (snd (firstHit ss st)))
     \<longleftrightarrow> (\<exists>s. consumer ss st = Some s \<and> shape_id s = n \<and> hit s st
              \<and> \<not> (\<not> drag_moving st \<and> mouseDown st) \<and> mouseUp st \<and> clickArmed st)"
proof -
  from consumer_emits[of st ss] obtain st1 where
    1: "st1 = st\<lparr>targetFound := targetFound st1, probed := probed st1\<rparr>" and
    c: "case consumer ss st of
            None \<Rightarrow> \<not> fst (firstHit ss st) \<and> emittedSince st (snd (firstHit ss st)) = []
          | Some s \<Rightarrow> fst (firstHit ss st) \<and> snd (firstHit ss st) = snd (detectEvent s st1)
               \<and> emittedSince st (snd (firstHit ss st)) = emittedSince st1 (snd (detectEvent s st1))"
    by blast
  note m = only_found_more[OF 1]
  show ?thesis
  proof (cases "consumer ss st")
    case None
    then show ?thesis using c by simp
  next
    case (Some s)
    have "emittedSince st (snd (firstHit ss st)) = emittedSince st1 (snd (detectEvent s st1))"
      using c unfolding Some option.case by (elim conjE)
    then show ?thesis
      using Some click_fired[of n st1 s] by (auto simp add: m)
  qed
qed

lemma tap_in_firstHit:
  "(n, Tap) \<in> set (emittedSince st (snd (firstHit ss st)))
     \<longleftrightarrow> (\<exists>s. consumer ss st = Some s \<and> shape_id s = n \<and> hit s st
              \<and> \<not> (\<not> drag_moving st \<and> mouseDown st) \<and> \<not> mouseUp st
              \<and> \<not> (\<not> drag_moving st \<and> touchStart st) \<and> touchEnd st \<and> tapArmed st)"
proof -
  from consumer_emits[of st ss] obtain st1 where
    1: "st1 = st\<lparr>targetFound := targetFound st1, probed := probed st1\<rparr>" and
    c: "case consumer ss st of
            None \<Rightarrow> \<not> fst (firstHit ss st) \<and> emittedSince st (snd (firstHit ss st)) = []
          | Some s \<Rightarrow> fst (firstHit ss st) \<and> snd (firstHit ss st) = snd (detectEvent s st1)
               \<and> emittedSince st (snd (firstHit ss st)) = emittedSince st1 (snd (detectEvent s st1))"
    by blast
  note m = only_found_more[OF 1]
  show ?thesis
  proof (cases "consumer ss st")
    case None
    then show ?thesis using c by simp
  next
    case (Some s)
    have "emittedSince st (snd (firstHit ss st)) = emittedSince st1 (snd (detectEvent s st1))"
      using c unfolding Some option.case by (elim conjE)
    then show ?thesis
      using Some tap_fired[of n st1 s] by (auto simp add: m)
  qed
qed

lemma press_in_firstHit:
  "(\<exists>n. (n, Mousedown) \<in> set (emittedSince st (snd (firstHit ss st))))
     \<longleftrightarrow> (\<exists>s. consumer ss st = Some s \<and> hit s st \<and> \<not> drag_moving st \<and> mouseDown st)"
  "(\<exists>n. (n, Touchstart) \<in> set (emittedSince st (snd (firstHit ss st))))
     \<longleftrightarrow> (\<exists>s. consumer ss st = Some s \<and> hit s st \<and> \<not> (\<not> drag_moving st \<and> mouseDown st)
              \<and> \<not> mouseUp st \<and> \<not> drag_moving st \<and> touchStart st)"
proof -
  from consumer_emits[of st ss] obtain st1 where
    1: "st1 = st\<lparr>targetFound := targetFound st1, probed := probed st1\<rparr>" and
    c: "case consumer ss st of
            None \<Rightarrow> \<not> fst (firstHit ss st) \<and> emittedSince st (snd (firstHit ss st)) = []
          | Some s \<Rightarrow> fst (firstHit ss st) \<and> snd (firstHit ss st) = snd (detectEvent s st1)
               \<and> emittedSince st (snd (firstHit ss st)) = emittedSince st1 (snd (detectEvent s st1))"
    by blast
  note m = only_found_more[OF 1]
  have a: "(\<exists>n. (n, Mousedown) \<in> set (emittedSince st1 (snd (detectEvent s st1))))
            \<longleftrightarrow> hit s st1 \<and> \<not> drag_moving st1 \<and> mouseDown st1" for s
    by (auto simp add: emittedSince_detectEvent split: option.splits if_splits)
  have b: "(\<exists>n. (n, Touchstart) \<in> set (emittedSince st1 (snd (detectEvent s st1))))
            \<longleftrightarrow> hit s st1 \<and> \<not> (\<not> drag_moving st1 \<and> mouseDown st1) \<and> \<not> mouseUp st1
                \<and> \<not> drag_moving st1 \<and> touchStart st1" for s
    by (auto simp add: emittedSince_detectEvent split: option.splits if_splits)
  show "(\<exists>n. (n, Mousedown) \<in> set (emittedSince st (snd (firstHit ss st))))
     \<longleftrightarrow> (\<exists>s. consumer ss st = Some s \<and> hit s st \<and> \<not> drag_moving st \<and> mouseDown st)"
  proof (cases "consumer ss st")
    case None
    then show ?thesis using c by simp
  next
    case (Some s)
    have "emittedSince st (snd (firstHit ss st)) = emittedSince st1 (snd (detectEvent s st1))"
      using c unfolding Some option.case by (elim conjE)
    then show ?thesis
      using Some a[of s] by (simp add: m)
  qed
  show "(\<exists>n. (n, Touchstart) \<in> set (emittedSince st (snd (firstHit ss st))))
     \<longleftrightarrow> (\<exists>s. consumer ss st = Some s \<and> hit s st \<and> \<not> (\<not> drag_moving st \<and> mouseDown st)
              \<and> \<not> mouseUp st \<and> \<not> drag_moving st \<and> touchStart st)"
  proof (cases "consumer ss st")
    case None
    then show ?thesis using c by simp
  next
    case (Some s)
    have "emittedSince st (snd (firstHit ss st)) = emittedSince st1 (snd (detectEvent s st1))"
      using c unfolding Some option.case by (elim conjE)
    then show ?thesis
      using Some b[of s] by (simp add: m)
  qed
qed

lemma starts_firstHit:
  "clickStart (snd (firstHit ss st))
     \<longleftrightarrow> clickStart st \<or> (\<exists>s. consumer ss st = Some s \<and> hit s st \<and> \<not> drag_moving st \<and> mouseDown st)"
  "tapStart (snd (firstHit ss st))
     \<longleftrightarrow> tapStart st \<or> (\<exists>s. consumer ss st = Some s \<and> hit s st \<and> \<not> (\<not> drag_moving st \<and> mouseDown st)
              \<and> \<not> mouseUp st \<and> \<not> drag_moving st \<and> touchStart st)"
  "inDoubleClickWindow (snd (firstHit ss st)) i
     \<longleftrightarrow> inDoubleClickWindow st i
         \<or> (\<exists>s. consumer ss st = Some s \<and> shape_id s = i \<and> qualifyingRelease s st)"
proof -
  from firstHit_consumer[of st ss] obtain st1 where
    1: "st1 = st\<lparr>targetFound := targetFound st1, probed := probed st1\<rparr>" and
    c: "case consumer ss st of
            None \<Rightarrow> firstHit ss st = (False, st1)
          | Some s \<Rightarrow> s \<in> set ss \<and> fst (detectEvent s st1) \<and> detectEvent s st1 = firstHit ss st"
    by blast
  note m = only_found_more[OF 1]
  have q: "qualifyingRelease s st1 = qualifyingRelease s st" for s
    by (simp add: qualifyingRelease_def m)
  have r: "snd (firstHit ss st) = (case consumer ss st of None \<Rightarrow> st1 | Some s \<Rightarrow> snd (detectEvent s st1))"
    using c by (auto split: option.splits)
  show "clickStart (snd (firstHit ss st))
     \<longleftrightarrow> clickStart st \<or> (\<exists>s. consumer ss st = Some s \<and> hit s st \<and> \<not> drag_moving st \<and> mouseDown st)"
    unfolding r by (cases "consumer ss st") (simp_all add: starts_detectEvent m)
  show "tapStart (snd (firstHit ss st))
     \<longleftrightarrow> tapStart st \<or> (\<exists>s. consumer ss st = Some s \<and> hit s st \<and> \<not> (\<not> drag_moving st \<and> mouseDown st)
              \<and> \<not> mouseUp st \<and> \<not> drag_moving st \<and> touchStart st)"
    unfolding r by (cases "consumer ss st") (simp_all add: starts_detectEvent m)
  show "inDoubleClickWindow (snd (firstHit ss st)) i
     \<longleftrightarrow> inDoubleClickWindow st i
         \<or> (\<exists>s. consumer ss st = Some s \<and> shape_id s = i \<and> qualifyingRelease s st)"
    unfolding r by (cases "consumer ss st") (auto simp add: window_detectEvent m q)
qed


lemma emitted_grows_firstHit: "emitted (snd (firstHit ss st)) = emitted st @ emittedSince st (snd (firstHit ss st))"
proof -
  from firstHit_consumer[of st ss] obtain st1 where
    1: "st1 = st\<lparr>targetFound := targetFound st1, probed := probed st1\<rparr>" and
    c: "case consumer ss st of
            None \<Rightarrow> firstHit ss st = (False, st1)
          | Some s \<Rightarrow> s \<in> set ss \<and> fst (detectEvent s st1) \<and> detectEvent s st1 = firstHit ss st"
    by blast
  have e: "emitted st1 = emitted st" using only_found_sel(2)[OF 1] .
  have r: "snd (firstHit ss st) = (case consumer ss st of None \<Rightarrow> st1 | Some s \<Rightarrow> snd (detectEvent s st1))"
    using c by (auto split: option.splits)
  have "\<exists>es. emitted (snd (firstHit ss st)) = emitted st @ es"
    unfolding r using e by (cases "consumer ss st") (simp_all add: emitted_detectEvent)
  then show ?thesis by (auto simp add: emittedSince_def)
qed

lemma beforeTraversal_more:
  "mouseDown (beforeTraversal d evt st) = mouseDown st"
  "mouseUp (beforeTraversal d evt st) = mouseUp st"
  "touchStart (beforeTraversal d evt st) = touchStart st"
  "touchEnd (beforeTraversal d evt st) = touchEnd st"
  "clickStart (beforeTraversal d evt st) = clickStart st"
  "tapStart (beforeTraversal d evt st) = tapStart st"
  "clickArmed (beforeTraversal d evt st) = clickArmed st"
  "tapArmed (beforeTraversal d evt st) = tapArmed st"
  by (simp_all add: beforeTraversal_def setMousePosition_def setTouchPosition_def Let_def
        clickArmed_def tapArmed_def split: prod.splits option.splits list.splits)

lemma handleStageEvent_emits:
  "\<exists>ms. emitted (handleStageEvent children d evt st)
          = emitted st
            @ emittedSince (beforeTraversal d evt st)
                (snd (firstHit (visitOrder children) (beforeTraversal d evt st)))
            @ ms
        \<and> (\<forall>e\<in>set ms. snd e = Mouseout)"
proof -
  let ?st3 = "beforeTraversal d evt st"
  obtain b st4 where tr: "firstHit (visitOrder children) ?st3 = (b, st4)"
    by (cases "firstHit (visitOrder children) ?st3")
  have g: "emitted st4 = emitted st @ emittedSince ?st3 st4"
    using emitted_grows_firstHit[of "visitOrder children" ?st3] tr
    by (simp add: beforeTraversal_sel)
  show ?thesis
  proof (cases b)
    case True
    then have "handleStageEvent children d evt st = st4"
      using tr by (simp add: handleStageEvent_eq traverseLayers_firstHit)
    then show ?thesis using g tr by (intro exI[of _ "[]"]) simp
  next
    case False
    show ?thesis
    proof (cases "mouseoutShape st4")
      case None
      then have "handleStageEvent children d evt st = st4"
        using tr False by (simp add: handleStageEvent_eq traverseLayers_firstHit)
      then show ?thesis using g tr by (intro exI[of _ "[]"]) simp
    next
      case (Some m)
      then have "emitted (handleStageEvent children d evt st) = emitted st4 @ [(shape_id m, Mouseout)]"
        using tr False by (simp add: handleStageEvent_eq traverseLayers_firstHit)
      then show ?thesis using g tr by (intro exI[of _ "[(shape_id m, Mouseout)]"]) simp
    qed
  qed
qed

lemma handleStageEvent_flags:
  "clickStart (handleStageEvent children d evt st)
     = clickStart (snd (firstHit (visitOrder children) (beforeTraversal d evt st)))"
  "tapStart (handleStageEvent children d evt st)
     = tapStart (snd (firstHit (visitOrder children) (beforeTraversal d evt st)))"
  "inDoubleClickWindow (handleStageEvent children d evt st)
     = inDoubleClickWindow (snd (firstHit (visitOrder children) (beforeTraversal d evt st)))"
  by (simp_all add: handleStageEvent_eq traverseLayers_firstHit
        split: prod.splits bool.splits option.splits)

lemma in_handleStageEvent:
  assumes "ty \<noteq> Mouseout"
  shows "(n, ty) \<in> set (emittedSince st (handleStageEvent children d evt st))
     \<longleftrightarrow> (n, ty) \<in> set (emittedSince (beforeTraversal d evt st)
                           (snd (firstHit (visitOrder children) (beforeTraversal d evt st))))"
proof -
  from handleStageEvent_emits[of children d evt st] obtain ms where
    e: "emitted (handleStageEvent children d evt st)
          = emitted st
            @ emittedSince (beforeTraversal d evt st)
                (snd (firstHit (visitOrder children) (beforeTraversal d evt st)))
            @ ms" and
    m: "\<forall>e\<in>set ms. snd e = Mouseout"
    by blast
  have "(n, ty) \<notin> set ms" using m assms by auto
  then show ?thesis by (simp add: emittedSince_def[of st] e)
qed

lemma click_in_handleStageEvent:
  "(n, Click) \<in> set (emittedSince st (handleStageEvent children d evt st))
     \<longleftrightarrow> (\<exists>s. consumer (visitOrder children) (beforeTraversal d evt st) = Some s
              \<and> shape_id s = n \<and> hit s (beforeTraversal d evt st)
              \<and> \<not> (\<not> drag_moving st \<and> mouseDown st) \<and> mouseUp st \<and> clickArmed st)"
  by (simp add: in_handleStageEvent click_in_firstHit beforeTraversal_more beforeTraversal_sel)

lemma tap_in_handleStageEvent:
  "(n, Tap) \<in> set (emittedSince st (handleStageEvent children d evt st))
     \<longleftrightarrow> (\<exists>s. consumer (visitOrder children) (beforeTraversal d evt st) = Some s
              \<and> shape_id s = n \<and> hit s (beforeTraversal d evt st)
              \<and> \<not> (\<not> drag_moving st \<and> mouseDown st) \<and> \<not> mouseUp st
              \<and> \<not> (\<not> drag_moving st \<and> touchStart st) \<and> touchEnd st \<and> tapArmed st)"
  by (simp add: in_handleStageEvent tap_in_firstHit beforeTraversal_more beforeTraversal_sel)

lemma starts_handleStageEvent:
  "clickStart (handleStageEvent children d evt st)
     \<longleftrightarrow> clickStart st
         \<or> (\<exists>n. (n, Mousedown) \<in> set (emittedSince st (handleStageEvent children d evt st)))"
  "tapStart (handleStageEvent children d evt st)
     \<longleftrightarrow> tapStart st
         \<or> (\<exists>n. (n, Touchstart) \<in> set (emittedSince st (handleStageEvent children d evt st)))"
  by (simp_all add: in_handleStageEvent handleStageEvent_flags starts_firstHit press_in_firstHit
        beforeTraversal_more)

lemma window_handleStageEvent:
  "inDoubleClickWindow (handleStageEvent children d evt st) i
     \<longleftrightarrow> inDoubleClickWindow st i
         \<or> (i, Click) \<in> set (emittedSince st (handleStageEvent children d evt st))
         \<or> (i, Tap) \<in> set (emittedSince st (handleStageEvent children d evt st))"
  unfolding click_in_handleStageEvent tap_in_handleStageEvent
  by (auto simp add: handleStageEvent_flags starts_firstHit qualifyingRelease_def
        beforeTraversal_more beforeTraversal_sel split: if_splits)


lemma emitted_grows_handleStageEvent:
  "emitted (handleStageEvent children d evt st)
     = emitted st @ emittedSince st (handleStageEvent children d evt st)"
  using handleStageEvent_emits[of children d evt st] by (auto simp add: emittedSince_def)

lemma endDrag_emits:
  "\<exists>ds. emitted (endDrag st) = emitted st @ ds \<and> (\<forall>e\<in>set ds. snd e = Dragend)"
  by (simp add: endDrag_def Let_def handleEvents_def split: option.splits)

lemma arrival_more:
  "clickStart (arrival r st) = clickStart st"
  "tapStart (arrival r st) = tapStart st"
  "clickArmed (arrival r st) = clickArmed st"
  "tapArmed (arrival r st) = tapArmed st"
  "drag_moving (arrival r st) = drag_moving st"
  "mouseDown (arrival r st) = mouseDown st"
  "mouseUp (arrival r st) = mouseUp st"
  "targetShape (arrival r st) = targetShape st"
  "mouseoutShape (arrival r st) = mouseoutShape st"
  "drag_node (arrival r st) = drag_node st"
  by (simp_all add: arrival_def runTimers_def clickArmed_def tapArmed_def)

lemma release_emits:
  assumes "emitted F = emitted st"
  shows "\<exists>ds. emittedSince st (endDrag ((handleStageEvent children d evt F)\<lparr>clickStart := c\<rparr>))
               = emittedSince F (handleStageEvent children d evt F) @ ds
             \<and> (\<forall>e\<in>set ds. snd e = Dragend)"
    and "\<exists>ds. emittedSince st (endDrag ((handleStageEvent children d evt F)\<lparr>tapStart := c\<rparr>))
               = emittedSince F (handleStageEvent children d evt F) @ ds
             \<and> (\<forall>e\<in>set ds. snd e = Dragend)"
proof -
  let ?H = "handleStageEvent children d evt F"
  have g: "emitted ?H = emitted st @ emittedSince F ?H"
    using emitted_grows_handleStageEvent[of children d evt F] assms by simp
  from endDrag_emits[of "?H\<lparr>clickStart := c\<rparr>"] obtain ds where
    "emitted (endDrag (?H\<lparr>clickStart := c\<rparr>)) = emitted ?H @ ds" and "\<forall>e\<in>set ds. snd e = Dragend"
    by auto
  then show "\<exists>ds. emittedSince st (endDrag (?H\<lparr>clickStart := c\<rparr>)) = emittedSince F ?H @ ds
             \<and> (\<forall>e\<in>set ds. snd e = Dragend)"
    using g by (intro exI[of _ ds]) (simp add: emittedSince_def[of st])
  from endDrag_emits[of "?H\<lparr>tapStart := c\<rparr>"] obtain ds where
    "emitted (endDrag (?H\<lparr>tapStart := c\<rparr>)) = emitted ?H @ ds" and "\<forall>e\<in>set ds. snd e = Dragend"
    by auto
  then show "\<exists>ds. emittedSince st (endDrag (?H\<lparr>tapStart := c\<rparr>)) = emittedSince F ?H @ ds
             \<and> (\<forall>e\<in>set ds. snd e = Dragend)"
    using g by (intro exI[of _ ds]) (simp add: emittedSince_def[of st])
qed

lemma click_in_mouseup:
  assumes "raw_kind r = DomMouseup"
  shows "(n, Click) \<in> set (emittedSince st (dispatch sap r st))
     \<longleftrightarrow> (\<exists>s. consumer (visitOrder (raw_children r)) (releasing r st) = Some s
              \<and> shape_id s = n \<and> hit s (releasing r st) \<and> clickArmed st)"
proof -
  let ?F = "(arrival r st)\<lparr>mouseDown := False, mouseUp := True, mouseMove := False\<rparr>"
  let ?H = "handleStageEvent (raw_children r) (raw_dom r) (raw_evt r) ?F"
  have d: "dispatch sap r st = endDrag (?H\<lparr>clickStart := False\<rparr>)"
    using assms by (simp add: dispatch_def listen_def prepareDrag_def listen_mouseup_def)
  have e: "emitted ?F = emitted st" by (simp add: arrival_sel)
  from release_emits(1)[OF e, where children = "raw_children r" and d = "raw_dom r" and evt = "raw_evt r" and c = False] obtain ds where
    1: "emittedSince st (endDrag (?H\<lparr>clickStart := False\<rparr>)) = emittedSince ?F ?H @ ds" and
    2: "\<forall>e\<in>set ds. snd e = Dragend"
    by blast
  have "(n, Click) \<notin> set ds" using 2 by auto
  then have "(n, Click) \<in> set (emittedSince st (dispatch sap r st))
               \<longleftrightarrow> (n, Click) \<in> set (emittedSince ?F ?H)"
    unfolding d 1 by simp
  also have "\<dots> \<longleftrightarrow> (\<exists>s. consumer (visitOrder (raw_children r)) (releasing r st) = Some s
              \<and> shape_id s = n \<and> hit s (releasing r st) \<and> clickArmed st)"
    unfolding click_in_handleStageEvent releasing_def
    by (simp add: clickArmed_def arrival_more)
  finally show ?thesis .
qed

lemma tap_in_touchend:
  assumes "raw_kind r = DomTouchend"
  shows "(n, Tap) \<in> set (emittedSince st (dispatch sap r st))
     \<longleftrightarrow> (\<exists>s. consumer (visitOrder (raw_children r)) (releasingTouch r st) = Some s
              \<and> shape_id s = n \<and> hit s (releasingTouch r st)
              \<and> \<not> (\<not> drag_moving st \<and> mouseDown st) \<and> \<not> mouseUp st \<and> tapArmed st)"
proof -
  let ?F = "(arrival r st)\<lparr>touchStart := False, touchEnd := True, touchMove := False\<rparr>"
  let ?H = "handleStageEvent (raw_children r) (raw_dom r) (raw_evt r) ?F"
  have d: "dispatch sap r st = endDrag (?H\<lparr>tapStart := False\<rparr>)"
    using assms by (simp add: dispatch_def listen_def prepareDrag_def listen_touchend_def)
  have e: "emitted ?F = emitted st" by (simp add: arrival_sel)
  from release_emits(2)[OF e, where children = "raw_children r" and d = "raw_dom r" and evt = "raw_evt r" and c = False] obtain ds where
    1: "emittedSince st (endDrag (?H\<lparr>tapStart := False\<rparr>)) = emittedSince ?F ?H @ ds" and
    2: "\<forall>e\<in>set ds. snd e = Dragend"
    by blast
  have "(n, Tap) \<notin> set ds" using 2 by auto
  then have "(n, Tap) \<in> set (emittedSince st (dispatch sap r st))
               \<longleftrightarrow> (n, Tap) \<in> set (emittedSince ?F ?H)"
    unfolding d 1 by simp
  also have "\<dots> \<longleftrightarrow> (\<exists>s. consumer (visitOrder (raw_children r)) (releasingTouch r st) = Some s
              \<and> shape_id s = n \<and> hit s (releasingTouch r st)
              \<and> \<not> (\<not> drag_moving st \<and> mouseDown st) \<and> \<not> mouseUp st \<and> tapArmed st)"
    unfolding tap_in_handleStageEvent releasingTouch_def
    by (simp add: tapArmed_def arrival_more)
  finally show ?thesis .
qed

lemma starts_cleared:
  "raw_kind r = DomMouseup \<Longrightarrow> \<not> clickStart (dispatch sap r st)"
  "raw_kind r = DomTouchend \<Longrightarrow> \<not> tapStart (dispatch sap r st)"
  by (simp_all add: dispatch_def listen_def prepareDrag_def listen_mouseup_def listen_touchend_def
        endDrag_def Let_def handleEvents_def split: option.splits)


section \<open>Click and tap\<close>

text \<open>
  C2, as the code has it. During a mouseup event a click fires on a shape exactly when
  that shape is the one whose call of \<open>_detectEvent\<close> consumes the event (the first in
  the order of the traversal that reports it consumed), the pointer is inside it, and
  the stage-wide flag \<open>clickStart\<close> is set while no drag is moving or no drag node is
  set. During a touchend event, once a touch position has been recorded, a tap fires
  under the same conditions on \<open>tapStart\<close>, provided that no \<open>mouseDown\<close> or \<open>mouseUp\<close>
  flag left by an earlier mouse event takes an earlier branch. The shape that received
  the press is not recorded and not compared with the shape of the release; and a shape
  under the pointer gets no click when a shape asked before it consumes the event, as
  the tracked target that the pointer has left does. The flag is cleared at the end of
  every mouseup (touchend) event, and a call of \<open>_handleStageEvent\<close> sets it exactly
  when it emits a mousedown (touchstart). A call of \<open>_handleStageEvent\<close> arms the
  double-click flag of a shape exactly when it fires a click or a tap on that shape.
\<close>

theorem C2_click_goes_to_the_consuming_shape:
  "(raw_kind r = DomMouseup \<longrightarrow>
      ((n, Click) \<in> set (emittedSince st (dispatch sap r st))
         \<longleftrightarrow> (\<exists>s. consumer (visitOrder (raw_children r)) (releasing r st) = Some s
                  \<and> shape_id s = n \<and> hit s (releasing r st) \<and> clickArmed st))
      \<and> \<not> clickStart (dispatch sap r st))
   \<and> (raw_kind r = DomTouchend \<longrightarrow>
      (touchPos (releasingTouch r st) \<noteq> None \<longrightarrow>
         ((n, Tap) \<in> set (emittedSince st (dispatch sap r st))
            \<longleftrightarrow> (\<exists>s. consumer (visitOrder (raw_children r)) (releasingTouch r st) = Some s
                     \<and> shape_id s = n \<and> hit s (releasingTouch r st)
                     \<and> \<not> (\<not> drag_moving st \<and> mouseDown st) \<and> \<not> mouseUp st
                     \<and> tapArmed st)))
      \<and> \<not> tapStart (dispatch sap r st))
   \<and> (clickStart (handleStageEvent children d evt st)
      \<longleftrightarrow> clickStart st
          \<or> (\<exists>m. (m, Mousedown) \<in> set (emittedSince st (handleStageEvent children d evt st))))
   \<and> (tapStart (handleStageEvent children d evt st)
      \<longleftrightarrow> tapStart st
          \<or> (\<exists>m. (m, Touchstart) \<in> set (emittedSince st (handleStageEvent children d evt st))))
   \<and> (inDoubleClickWindow (handleStageEvent children d evt st) i
      \<longleftrightarrow> inDoubleClickWindow st i
          \<or> (i, Click) \<in> set (emittedSince st (handleStageEvent children d evt st))
          \<or> (i, Tap) \<in> set (emittedSince st (handleStageEvent children d evt st)))"
  using click_in_mouseup[of r n st sap] tap_in_touchend[of r n st sap]
    starts_cleared[of r sap st] starts_handleStageEvent[of children d evt st]
    window_handleStageEvent[of children d evt st i]
  by blast

theorem C2_witness:
  "emitted pressedOne = [(1, Mousedown)]
   \<and> (2, Click) \<in> set (emittedSince pressedOne (dispatch storeAsGiven releaseOverTwo pressedOne))
   \<and> emitted hoveredAndPressedTwo = [(2, Mouseover), (2, Mousedown)]
   \<and> clickArmed hoveredAndPressedTwo
   \<and> hit (strip 1 0 10) (releasing releaseOverOne hoveredAndPressedTwo)
   \<and> (1, Click) \<notin> set (emittedSince hoveredAndPressedTwo
                           (dispatch storeAsGiven releaseOverOne hoveredAndPressedTwo))
   \<and> \<not> clickStart (dispatch storeAsGiven releaseOverOne hoveredAndPressedTwo)
   \<and> emitted touched = [(1, Touchstart)]
   \<and> (1, Tap) \<in> set (emittedSince touched (dispatch storeAsGiven liftFinger touched))
   \<and> \<not> tapStart (dispatch storeAsGiven liftFinger touched)"
proof -
  have k: "raw_kind releaseOverTwo = DomMouseup" "raw_kind releaseOverOne = DomMouseup"
    "raw_kind liftFinger = DomTouchend"
    by (simp_all add: releaseOverTwo_def releaseOverOne_def mouseRaw_def liftFinger_def)
  have p: "emitted pressedOne = [(1, Mousedown)]"
    "emitted hoveredAndPressedTwo = [(2, Mouseover), (2, Mousedown)]"
    "clickArmed hoveredAndPressedTwo"
    "hit (strip 1 0 10) (releasing releaseOverOne hoveredAndPressedTwo)"
    by code_simp+
  have "case consumer (visitOrder (raw_children releaseOverTwo)) (releasing releaseOverTwo pressedOne) of
          None \<Rightarrow> False
        | Some s \<Rightarrow> shape_id s = 2 \<and> hit s (releasing releaseOverTwo pressedOne)
                     \<and> clickArmed pressedOne"
    by code_simp
  then have a: "\<exists>s. consumer (visitOrder (raw_children releaseOverTwo))
                      (releasing releaseOverTwo pressedOne) = Some s
                  \<and> shape_id s = 2 \<and> hit s (releasing releaseOverTwo pressedOne)
                  \<and> clickArmed pressedOne"
    by (auto split: option.splits)
  have "case consumer (visitOrder (raw_children releaseOverOne))
               (releasing releaseOverOne hoveredAndPressedTwo) of
          None \<Rightarrow> False
        | Some s \<Rightarrow> shape_id s = 2 \<and> \<not> hit s (releasing releaseOverOne hoveredAndPressedTwo)"
    by code_simp
  then have b: "\<not> (\<exists>s. consumer (visitOrder (raw_children releaseOverOne))
                      (releasing releaseOverOne hoveredAndPressedTwo) = Some s
                  \<and> shape_id s = 1 \<and> hit s (releasing releaseOverOne hoveredAndPressedTwo)
                  \<and> clickArmed hoveredAndPressedTwo)"
    by (auto split: option.splits)
  have 1: "(2, Click) \<in> set (emittedSince pressedOne (dispatch storeAsGiven releaseOverTwo pressedOne))"
    using C2_click_goes_to_the_consuming_shape[where r = releaseOverTwo and n = 2
        and st = pressedOne and sap = storeAsGiven] k a
    by blast
  have 2: "(1, Click) \<notin> set (emittedSince hoveredAndPressedTwo
                           (dispatch storeAsGiven releaseOverOne hoveredAndPressedTwo))
           \<and> \<not> clickStart (dispatch storeAsGiven releaseOverOne hoveredAndPressedTwo)"
    using C2_click_goes_to_the_consuming_shape[where r = releaseOverOne and n = 1
        and st = hoveredAndPressedTwo and sap = storeAsGiven] k b
    by blast
  have t: "emitted touched = [(1, Touchstart)]"
    "touchPos (releasingTouch liftFinger touched) \<noteq> None"
    by code_simp+
  have "case consumer (visitOrder (raw_children liftFinger)) (releasingTouch liftFinger touched) of
          None \<Rightarrow> False
        | Some s \<Rightarrow> shape_id s = 1 \<and> hit s (releasingTouch liftFinger touched)
                     \<and> \<not> (\<not> drag_moving touched \<and> mouseDown touched)
                     \<and> \<not> mouseUp touched \<and> tapArmed touched"
    by code_simp
  then have c: "\<exists>s. consumer (visitOrder (raw_children liftFinger))
                      (releasingTouch liftFinger touched) = Some s
                  \<and> shape_id s = 1 \<and> hit s (releasingTouch liftFinger touched)
                  \<and> \<not> (\<not> drag_moving touched \<and> mouseDown touched)
                  \<and> \<not> mouseUp touched \<and> tapArmed touched"
    by (auto split: option.splits)
  have 3: "(1, Tap) \<in> set (emittedSince touched (dispatch storeAsGiven liftFinger touched))
           \<and> \<not> tapStart (dispatch storeAsGiven liftFinger touched)"
    using C2_click_goes_to_the_consuming_shape[where r = liftFinger and n = 1
        and st = touched and sap = storeAsGiven] k t(2) c
    by blast
  from p 1 2 3 t(1) show ?thesis by blast
qed

text \<open>
  The claim as it was stated fails: the press lands on shape 1, the release on shape 2,
  and a click fires on shape 2, whose double-click flag is armed.
\<close>

theorem C2_counterexample:
  "emitted (run storeAsGiven [mouse DomMousedown 1000 5 5, mouse DomMouseup 2000 25 5]
              (newStage plainNodes))
     = [(1, Mousedown), (2, Mouseup), (2, Click)]
   \<and> \<not> inDoubleClickWindow (newStage plainNodes) 2
   \<and> inDoubleClickWindow
        (run storeAsGiven [mouse DomMousedown 1000 5 5, mouse DomMouseup 2000 25 5]
           (newStage plainNodes)) 2"
  by code_simp

section \<open>The exit of the tracked target in a whole event\<close>

lemma listen_clears_target:
  assumes "raw_kind r \<noteq> DomMouseout" and "targetShape st = Some t"
    and "targetShape (listen r st) = None"
  shows "emitted (listen r st) = emitted st
         \<and> (\<exists>x. mouseoutShape (listen r st) = Some x \<and> shape_id x = shape_id t)"
proof (cases "raw_kind r")
  case DomMousedown
  then show ?thesis
    using assms(2,3)
      handleStageEvent_clears_target[of "st\<lparr>mouseDown := True, mouseUp := False, mouseMove := False\<rparr>"
        t "raw_children r" "raw_dom r" "raw_evt r"]
    by (simp add: listen_def listen_mousedown_def)
next
  case DomMousemove
  then show ?thesis
    using assms(2,3)
      handleStageEvent_clears_target[of "st\<lparr>mouseDown := False, mouseUp := False, mouseMove := True\<rparr>"
        t "raw_children r" "raw_dom r" "raw_evt r"]
    by (simp add: listen_def listen_mousemove_def split: if_splits)
next
  case DomMouseup
  then show ?thesis
    using assms(2,3)
      handleStageEvent_clears_target[of "st\<lparr>mouseDown := False, mouseUp := True, mouseMove := False\<rparr>"
        t "raw_children r" "raw_dom r" "raw_evt r"]
    by (simp add: listen_def listen_mouseup_def)
next
  case DomMouseover
  then show ?thesis
    using assms(2,3)
      handleStageEvent_clears_target[of st t "raw_children r" "raw_dom r" "raw_evt r"]
    by (simp add: listen_def listen_mouseover_def)
next
  case DomMouseout
  then show ?thesis using assms(1) by simp
next
  case DomTouchstart
  then show ?thesis
    using assms(2,3)
      handleStageEvent_clears_target[of "st\<lparr>touchStart := True, touchEnd := False, touchMove := False\<rparr>"
        t "raw_children r" "raw_dom r" "raw_evt r"]
    by (simp add: listen_def listen_touchstart_def)
next
  case DomTouchmove
  then show ?thesis
    using assms(2,3)
      handleStageEvent_clears_target[of "st\<lparr>touchStart := False, touchEnd := False, touchMove := True\<rparr>"
        t "raw_children r" "raw_dom r" "raw_evt r"]
    by (simp add: listen_def listen_touchmove_def split: if_splits)
next
  case DomTouchend
  then show ?thesis
    using assms(2,3)
      handleStageEvent_clears_target[of "st\<lparr>touchStart := False, touchEnd := True, touchMove := False\<rparr>"
        t "raw_children r" "raw_dom r" "raw_evt r"]
    by (simp add: listen_def listen_touchend_def)
qed

lemma prepareDrag_emits:
  "\<exists>ds. emitted (prepareDrag sap r st) = emitted st @ ds
        \<and> (\<forall>e\<in>set ds. snd e = Dragstart \<or> snd e = Dragmove \<or> snd e = Dragend)"
  by (auto simp add: prepareDrag_def prepareDrag_move_def endDrag_def Let_def handleEvents_def
        split: sum.splits option.splits if_splits)

lemma prepareDrag_target:
  "targetShape (prepareDrag sap r st) = targetShape st"
  "mouseoutShape (prepareDrag sap r st) = mouseoutShape st"
  by (auto simp add: prepareDrag_def prepareDrag_move_def endDrag_def Let_def handleEvents_def
        split: sum.splits option.splits if_splits)

lemma dispatch_clears_target:
  assumes "raw_kind r \<noteq> DomMouseout" and "targetShape st = Some t"
    and "targetShape (dispatch sap r st) = None"
  shows "emitted (listen r (arrival r st)) = emitted st
         \<and> (\<forall>e\<in>set (emittedSince st (dispatch sap r st)).
               snd e = Dragstart \<or> snd e = Dragmove \<or> snd e = Dragend)
         \<and> (\<exists>x. mouseoutShape (dispatch sap r st) = Some x \<and> shape_id x = shape_id t)"
proof -
  let ?A = "arrival r st"
  have t: "targetShape ?A = Some t" using assms(2) by (simp add: arrival_more)
  have n: "targetShape (listen r ?A) = None"
    using assms(3) by (simp add: dispatch_def prepareDrag_target)
  from listen_clears_target[OF assms(1) t n]
  have l: "emitted (listen r ?A) = emitted st"
    and m: "\<exists>x. mouseoutShape (listen r ?A) = Some x \<and> shape_id x = shape_id t"
    by (simp_all add: arrival_sel)
  from prepareDrag_emits[of sap r "listen r ?A"] obtain ds where
    d: "emitted (dispatch sap r st) = emitted st @ ds" and
    e: "\<forall>e\<in>set ds. snd e = Dragstart \<or> snd e = Dragmove \<or> snd e = Dragend"
    using l by (auto simp add: dispatch_def)
  have "emittedSince st (dispatch sap r st) = ds"
    by (simp add: emittedSince_def d)
  then show ?thesis
    using l m e by (simp add: dispatch_def prepareDrag_target)
qed

lemma handleStageEvent_target_consumes:
  assumes "consumer (visitOrder children) (beforeTraversal d evt st) = Some s"
    and "isTarget s st" and "\<not> hit s (beforeTraversal d evt st)" and "\<not> drag_moving st"
  shows "targetShape (handleStageEvent children d evt st) = None
         \<and> mouseoutShape (handleStageEvent children d evt st) = Some s
         \<and> emitted (handleStageEvent children d evt st) = emitted st"
proof -
  let ?st3 = "beforeTraversal d evt st"
  from firstHit_consumer[of ?st3 "visitOrder children"] obtain st1 where
    1: "st1 = ?st3\<lparr>targetFound := targetFound st1, probed := probed st1\<rparr>" and
    c: "case consumer (visitOrder children) ?st3 of
            None \<Rightarrow> firstHit (visitOrder children) ?st3 = (False, st1)
          | Some s \<Rightarrow> s \<in> set (visitOrder children) \<and> fst (detectEvent s st1)
                \<and> detectEvent s st1 = firstHit (visitOrder children) ?st3"
    by blast
  have c': "s \<in> set (visitOrder children) \<and> fst (detectEvent s st1)
                \<and> detectEvent s st1 = firstHit (visitOrder children) ?st3"
    using c unfolding assms(1) option.case .
  have f: "firstHit (visitOrder children) ?st3 = detectEvent s st1"
    by (rule c'[THEN conjunct2, THEN conjunct2, symmetric])
  note m = only_found_more[OF 1]
  have h: "\<not> hit s st1" using assms(3) by (simp add: m)
  have "isTarget s (beforeTraversal d evt st)"
    using assms(2) by (simp add: isTarget_def beforeTraversal_sel)
  then have i: "isTarget s st1" by (simp add: m)
  have g: "\<not> drag_moving st1" using assms(4) by (simp add: m beforeTraversal_sel)
  have e: "emitted st1 = emitted st"
    using only_found_sel(2)[OF 1] by (simp add: beforeTraversal_sel)
  have "detectEvent s st1 =
          (True, st1\<lparr>probed := probed st1 @ [shape_id s], targetShape := None,
                     targetFound := True, mouseoutShape := Some s\<rparr>)"
    using detectEvent_miss[OF h] i g by simp
  then show ?thesis
    using f e by (simp add: handleStageEvent_eq traverseLayers_firstHit)
qed

lemma listen_mouseout_exits:
  assumes "raw_kind r = DomMouseout" and "targetShape st = Some t"
  shows "emitted (listen r (arrival r st)) = emitted st @ [(shape_id t, Mouseout)]
         \<and> targetShape (dispatch sap r st) = None"
  using assms
  by (simp add: dispatch_def prepareDrag_target listen_def listen_mouseout_def handleEvents_def
        arrival_more arrival_sel Let_def)


lemma detectEvent_enter_from_target:
  assumes "hit s st" and "\<not> drag_moving st" and "\<not> mouseDown st" and "\<not> mouseUp st"
    and "\<not> touchStart st" and "\<not> touchEnd st" and "targetShape st = Some t"
    and "\<not> targetFound st" and "shape_id s \<noteq> shape_id t" and "eventListeners t"
  shows "emitted (snd (detectEvent s st))
           = emitted st @ [(shape_id t, Mouseout), (shape_id s, Mouseover)]"
  using assms
  by (simp add: detectEvent_def Let_def branch_upd hit_upd isNewTarget_def isTarget_def)

text \<open>
  C3, as the code has it. When \<open>_detectEvent\<close> reaches the tracked target while the
  pointer is not inside it and no drag is moving, the call clears the tracked target,
  stores the shape as the pending mouseout shape, reports the event consumed and emits
  nothing; the call of \<open>_handleStageEvent\<close> in which this call consumes the event emits
  nothing either. Whenever the handling of a DOM event other than the mouseout of the
  content div clears the tracked target, the listener of \<open>_listen\<close> emits nothing and
  the only events of that DOM event are the drag events of the listener of
  \<open>_prepareDrag\<close>: no mouseout is emitted. The stored mouseout is emitted by a call of
  \<open>_handleStageEvent\<close> that starts with it: at its end when no shape consumed the
  event, or right before the mouseover of the shape the pointer enters. There are two
  exceptions. The listener of the mouseout of the content div emits the mouseout of the
  tracked target at once and clears the target. And when the pointer is inside a shape
  that is asked before the tracked target (which has listeners) and takes the mouseover
  branch, that call emits the mouseout of the tracked target right before its own
  mouseover.
\<close>

theorem C3_exit_is_deferred:
  "(isTarget s st \<and> \<not> hit s st \<and> \<not> drag_moving st \<longrightarrow>
      fst (detectEvent s st) \<and> emitted (snd (detectEvent s st)) = emitted st
      \<and> targetShape (snd (detectEvent s st)) = None
      \<and> mouseoutShape (snd (detectEvent s st)) = Some s)
   \<and> (consumer (visitOrder children) (beforeTraversal d evt st) = Some s \<and> isTarget s st
       \<and> \<not> hit s (beforeTraversal d evt st) \<and> \<not> drag_moving st \<longrightarrow>
      targetShape (handleStageEvent children d evt st) = None
      \<and> mouseoutShape (handleStageEvent children d evt st) = Some s
      \<and> emitted (handleStageEvent children d evt st) = emitted st)
   \<and> (targetShape st \<noteq> None \<and> targetShape (handleStageEvent children d evt st) = None \<longrightarrow>
      emitted (handleStageEvent children d evt st) = emitted st
      \<and> (\<exists>x t. targetShape st = Some t
             \<and> mouseoutShape (handleStageEvent children d evt st) = Some x
             \<and> shape_id x = shape_id t))
   \<and> (raw_kind r \<noteq> DomMouseout \<and> targetShape st \<noteq> None
       \<and> targetShape (dispatch sap r st) = None \<longrightarrow>
      emitted (listen r (arrival r st)) = emitted st
      \<and> (\<forall>e\<in>set (emittedSince st (dispatch sap r st)).
            snd e = Dragstart \<or> snd e = Dragmove \<or> snd e = Dragend)
      \<and> (\<exists>x t. targetShape st = Some t
             \<and> mouseoutShape (dispatch sap r st) = Some x
             \<and> shape_id x = shape_id t))
   \<and> (raw_kind r = DomMouseout \<and> targetShape st = Some tgt \<longrightarrow>
      emitted (listen r (arrival r st)) = emitted st @ [(shape_id tgt, Mouseout)]
      \<and> targetShape (dispatch sap r st) = None)
   \<and> (mouseoutShape st = Some m \<and> \<not> fst (traverseLayers children (beforeTraversal d evt st)) \<longrightarrow>
      emitted (handleStageEvent children d evt st) = emitted st @ [(shape_id m, Mouseout)]
      \<and> mouseoutShape (handleStageEvent children d evt st) = None)
   \<and> (hit s st \<and> \<not> drag_moving st \<and> \<not> mouseDown st \<and> \<not> mouseUp st \<and> \<not> touchStart st
       \<and> \<not> touchEnd st \<and> targetShape st = None \<and> mouseoutShape st = Some m \<longrightarrow>
      emitted (snd (detectEvent s st))
        = emitted st @ [(shape_id m, Mouseout), (shape_id s, Mouseover)])
   \<and> (hit s st \<and> \<not> drag_moving st \<and> \<not> mouseDown st \<and> \<not> mouseUp st \<and> \<not> touchStart st
       \<and> \<not> touchEnd st \<and> targetShape st = Some tgt \<and> \<not> targetFound st
       \<and> shape_id s \<noteq> shape_id tgt \<and> eventListeners tgt \<longrightarrow>
      emitted (snd (detectEvent s st))
        = emitted st @ [(shape_id tgt, Mouseout), (shape_id s, Mouseover)])"
proof -
  have 1: "isTarget s st \<and> \<not> hit s st \<and> \<not> drag_moving st \<longrightarrow>
      fst (detectEvent s st) \<and> emitted (snd (detectEvent s st)) = emitted st
      \<and> targetShape (snd (detectEvent s st)) = None
      \<and> mouseoutShape (snd (detectEvent s st)) = Some s"
    by (simp add: detectEvent_miss)
  have 2: "consumer (visitOrder children) (beforeTraversal d evt st) = Some s \<and> isTarget s st
       \<and> \<not> hit s (beforeTraversal d evt st) \<and> \<not> drag_moving st \<longrightarrow>
      targetShape (handleStageEvent children d evt st) = None
      \<and> mouseoutShape (handleStageEvent children d evt st) = Some s
      \<and> emitted (handleStageEvent children d evt st) = emitted st"
    using handleStageEvent_target_consumes[of children d evt st s] by blast
  have 3: "targetShape st \<noteq> None \<and> targetShape (handleStageEvent children d evt st) = None \<longrightarrow>
      emitted (handleStageEvent children d evt st) = emitted st
      \<and> (\<exists>x t. targetShape st = Some t
             \<and> mouseoutShape (handleStageEvent children d evt st) = Some x
             \<and> shape_id x = shape_id t)"
  proof (intro impI, elim conjE)
    assume "targetShape st \<noteq> None"
      and n: "targetShape (handleStageEvent children d evt st) = None"
    then obtain t where t: "targetShape st = Some t" by auto
    from handleStageEvent_clears_target[OF t n] t
    show "emitted (handleStageEvent children d evt st) = emitted st
      \<and> (\<exists>x t. targetShape st = Some t
             \<and> mouseoutShape (handleStageEvent children d evt st) = Some x
             \<and> shape_id x = shape_id t)"
      by auto
  qed
  have 4: "raw_kind r \<noteq> DomMouseout \<and> targetShape st \<noteq> None
       \<and> targetShape (dispatch sap r st) = None \<longrightarrow>
      emitted (listen r (arrival r st)) = emitted st
      \<and> (\<forall>e\<in>set (emittedSince st (dispatch sap r st)).
            snd e = Dragstart \<or> snd e = Dragmove \<or> snd e = Dragend)
      \<and> (\<exists>x t. targetShape st = Some t
             \<and> mouseoutShape (dispatch sap r st) = Some x
             \<and> shape_id x = shape_id t)"
  proof (intro impI, elim conjE)
    assume k: "raw_kind r \<noteq> DomMouseout" and "targetShape st \<noteq> None"
      and n: "targetShape (dispatch sap r st) = None"
    then obtain t where t: "targetShape st = Some t" by auto
    from dispatch_clears_target[OF k t n] t
    show "emitted (listen r (arrival r st)) = emitted st
      \<and> (\<forall>e\<in>set (emittedSince st (dispatch sap r st)).
            snd e = Dragstart \<or> snd e = Dragmove \<or> snd e = Dragend)
      \<and> (\<exists>x t. targetShape st = Some t
             \<and> mouseoutShape (dispatch sap r st) = Some x
             \<and> shape_id x = shape_id t)"
      by auto
  qed
  have 5: "raw_kind r = DomMouseout \<and> targetShape st = Some tgt \<longrightarrow>
      emitted (listen r (arrival r st)) = emitted st @ [(shape_id tgt, Mouseout)]
      \<and> targetShape (dispatch sap r st) = None"
    using listen_mouseout_exits[of r st tgt sap] by blast
  have 6: "mouseoutShape st = Some m \<and> \<not> fst (traverseLayers children (beforeTraversal d evt st)) \<longrightarrow>
      emitted (handleStageEvent children d evt st) = emitted st @ [(shape_id m, Mouseout)]
      \<and> mouseoutShape (handleStageEvent children d evt st) = None"
    using handleStageEvent_flush[of st m children d evt] by blast
  have 7: "hit s st \<and> \<not> drag_moving st \<and> \<not> mouseDown st \<and> \<not> mouseUp st \<and> \<not> touchStart st
       \<and> \<not> touchEnd st \<and> targetShape st = None \<and> mouseoutShape st = Some m \<longrightarrow>
      emitted (snd (detectEvent s st))
        = emitted st @ [(shape_id m, Mouseout), (shape_id s, Mouseover)]"
    using detectEvent_enter_after_exit[of s st m] by blast
  have 8: "hit s st \<and> \<not> drag_moving st \<and> \<not> mouseDown st \<and> \<not> mouseUp st \<and> \<not> touchStart st
       \<and> \<not> touchEnd st \<and> targetShape st = Some tgt \<and> \<not> targetFound st
       \<and> shape_id s \<noteq> shape_id tgt \<and> eventListeners tgt \<longrightarrow>
      emitted (snd (detectEvent s st))
        = emitted st @ [(shape_id tgt, Mouseout), (shape_id s, Mouseover)]"
    using detectEvent_enter_from_target[of s st tgt] by blast
  show ?thesis
    by (rule conjI[OF 1 conjI[OF 2 conjI[OF 3 conjI[OF 4 conjI[OF 5 conjI[OF 6 conjI[OF 7 8]]]]]]])
qed

theorem C3_witness:
  "fst (detectEvent (strip 1 0 10) outsideOne)
   \<and> emitted (snd (detectEvent (strip 1 0 10) outsideOne)) = emitted outsideOne
   \<and> emitted outsideOne = [(1, Mouseover)]
   \<and> emitted (handleStageEvent twoShapes page (raw_evt (moveOut 2000)) hoverOne) = [(1, Mouseover)]
   \<and> emitted (handleStageEvent twoShapes page (raw_evt (moveOut 3000)) leftOne)
       = [(1, Mouseover), (1, Mouseout)]
   \<and> emitted (snd (detectEvent (strip 2 20 30) (arrivingAtTwo 3000 leftOne)))
       = [(1, Mouseover), (1, Mouseout), (2, Mouseover)]
   \<and> emitted hoverOneArmed = [(1, Mouseover), (1, Mousedown)]
   \<and> emitted (listen (moveOut 2000) (arrival (moveOut 2000) hoverOneArmed))
       = [(1, Mouseover), (1, Mousedown)]
   \<and> emitted (dispatch storeAsGiven (moveOut 2000) hoverOneArmed)
       = [(1, Mouseover), (1, Mousedown), (1, Dragstart), (1, Dragmove)]
   \<and> emitted (listen leaveContent (arrival leaveContent hoverOne))
       = [(1, Mouseover), (1, Mouseout)]
   \<and> targetShape (dispatch storeAsGiven leaveContent hoverOne) = None
   \<and> emitted (snd (detectEvent (strip 2 20 30) (arrivingAtTwo 2000 hoverOne)))
       = [(1, Mouseover), (1, Mouseout), (2, Mouseover)]"
proof -
  let ?m = "the (mouseoutShape leftOne)"
  let ?u = "the (targetShape (arrivingAtTwo 2000 hoverOne))"
  let ?c = "the (consumer (visitOrder twoShapes) (beforeTraversal page (raw_evt (moveOut 2000)) hoverOne))"
  let ?t = "the (targetShape hoverOne)"
  have a: "isTarget (strip 1 0 10) outsideOne \<and> \<not> hit (strip 1 0 10) outsideOne
           \<and> \<not> drag_moving outsideOne"
    by code_simp
  have "consumer (visitOrder twoShapes) (beforeTraversal page (raw_evt (moveOut 2000)) hoverOne)
          \<noteq> None"
    by code_simp
  then have b1: "consumer (visitOrder twoShapes) (beforeTraversal page (raw_evt (moveOut 2000)) hoverOne)
                   = Some ?c"
    by simp
  have b2: "isTarget ?c hoverOne \<and> \<not> hit ?c (beforeTraversal page (raw_evt (moveOut 2000)) hoverOne)
            \<and> \<not> drag_moving hoverOne"
    by code_simp
  have "mouseoutShape leftOne \<noteq> None" by code_simp
  then have c1: "mouseoutShape leftOne = Some ?m" by simp
  have c2: "\<not> fst (traverseLayers twoShapes (beforeTraversal page (raw_evt (moveOut 3000)) leftOne))"
    by code_simp
  have "mouseoutShape (arrivingAtTwo 3000 leftOne) \<noteq> None" by code_simp
  then have d1: "mouseoutShape (arrivingAtTwo 3000 leftOne)
                   = Some (the (mouseoutShape (arrivingAtTwo 3000 leftOne)))" by simp
  have d2: "hit (strip 2 20 30) (arrivingAtTwo 3000 leftOne)
            \<and> \<not> drag_moving (arrivingAtTwo 3000 leftOne)
            \<and> \<not> mouseDown (arrivingAtTwo 3000 leftOne) \<and> \<not> mouseUp (arrivingAtTwo 3000 leftOne)
            \<and> \<not> touchStart (arrivingAtTwo 3000 leftOne) \<and> \<not> touchEnd (arrivingAtTwo 3000 leftOne)
            \<and> targetShape (arrivingAtTwo 3000 leftOne) = None"
    by code_simp
  have f: "raw_kind (moveOut 2000) \<noteq> DomMouseout \<and> targetShape hoverOneArmed \<noteq> None
           \<and> targetShape (dispatch storeAsGiven (moveOut 2000) hoverOneArmed) = None"
    by code_simp
  have "targetShape hoverOne \<noteq> None" by code_simp
  then have g1: "targetShape hoverOne = Some ?t" by simp
  have g2: "raw_kind leaveContent = DomMouseout"
    by (simp add: leaveContent_def mouseRaw_def)
  have e: "emitted outsideOne = [(1, Mouseover)]" "emitted hoverOne = [(1, Mouseover)]"
    "emitted leftOne = [(1, Mouseover)]" "shape_id ?m = 1"
    "emitted (arrivingAtTwo 3000 leftOne) = [(1, Mouseover)]"
    "shape_id (the (mouseoutShape (arrivingAtTwo 3000 leftOne))) = 1"
    "shape_id (strip 2 20 30) = 2"
    "emitted hoverOneArmed = [(1, Mouseover), (1, Mousedown)]"
    "shape_id ?t = 1"
    "emitted (dispatch storeAsGiven (moveOut 2000) hoverOneArmed)
       = [(1, Mouseover), (1, Mousedown), (1, Dragstart), (1, Dragmove)]"
    by code_simp+
  have 1: "fst (detectEvent (strip 1 0 10) outsideOne)
     \<and> emitted (snd (detectEvent (strip 1 0 10) outsideOne)) = emitted outsideOne"
    using C3_exit_is_deferred[where s = "strip 1 0 10" and st = outsideOne] a by blast
  have 2: "emitted (handleStageEvent twoShapes page (raw_evt (moveOut 2000)) hoverOne)
             = emitted hoverOne"
    using C3_exit_is_deferred[where s = ?c and st = hoverOne and children = twoShapes
        and d = page and evt = "raw_evt (moveOut 2000)"] b1 b2
    by blast
  have 3: "emitted (handleStageEvent twoShapes page (raw_evt (moveOut 3000)) leftOne)
             = emitted leftOne @ [(shape_id ?m, Mouseout)]"
    using C3_exit_is_deferred[where st = leftOne and children = twoShapes and d = page
        and evt = "raw_evt (moveOut 3000)" and m = ?m] c1 c2
    by blast
  have 4: "emitted (snd (detectEvent (strip 2 20 30) (arrivingAtTwo 3000 leftOne)))
        = emitted (arrivingAtTwo 3000 leftOne)
          @ [(shape_id (the (mouseoutShape (arrivingAtTwo 3000 leftOne))), Mouseout),
             (shape_id (strip 2 20 30), Mouseover)]"
    using C3_exit_is_deferred[where s = "strip 2 20 30" and st = "arrivingAtTwo 3000 leftOne"
        and m = "the (mouseoutShape (arrivingAtTwo 3000 leftOne))"] d1 d2
    by blast
  have 5: "emitted (listen (moveOut 2000) (arrival (moveOut 2000) hoverOneArmed))
             = emitted hoverOneArmed"
    using C3_exit_is_deferred[where r = "moveOut 2000" and st = hoverOneArmed
        and sap = storeAsGiven] f
    by blast
  have 6: "emitted (listen leaveContent (arrival leaveContent hoverOne))
             = emitted hoverOne @ [(shape_id ?t, Mouseout)]
           \<and> targetShape (dispatch storeAsGiven leaveContent hoverOne) = None"
    using C3_exit_is_deferred[where r = leaveContent and st = hoverOne and tgt = ?t
        and sap = storeAsGiven] g1 g2
    by blast
  have "targetShape (arrivingAtTwo 2000 hoverOne) \<noteq> None" by code_simp
  then have h1: "targetShape (arrivingAtTwo 2000 hoverOne) = Some ?u" by simp
  have h2: "hit (strip 2 20 30) (arrivingAtTwo 2000 hoverOne)
            \<and> \<not> drag_moving (arrivingAtTwo 2000 hoverOne)
            \<and> \<not> mouseDown (arrivingAtTwo 2000 hoverOne) \<and> \<not> mouseUp (arrivingAtTwo 2000 hoverOne)
            \<and> \<not> touchStart (arrivingAtTwo 2000 hoverOne) \<and> \<not> touchEnd (arrivingAtTwo 2000 hoverOne)
            \<and> \<not> targetFound (arrivingAtTwo 2000 hoverOne)
            \<and> shape_id (strip 2 20 30) \<noteq> shape_id ?u \<and> eventListeners ?u"
    by code_simp
  have h3: "emitted (arrivingAtTwo 2000 hoverOne) = [(1, Mouseover)]" "shape_id ?u = 1"
    by code_simp+
  have 7: "emitted (snd (detectEvent (strip 2 20 30) (arrivingAtTwo 2000 hoverOne)))
        = emitted (arrivingAtTwo 2000 hoverOne)
          @ [(shape_id ?u, Mouseout), (shape_id (strip 2 20 30), Mouseover)]"
    using C3_exit_is_deferred[where s = "strip 2 20 30" and st = "arrivingAtTwo 2000 hoverOne"
        and tgt = ?u] h1 h2
    by blast
  from 1 2 3 4 5 6 7 e h3 show ?thesis by simp
qed

text \<open>
  The claim as it was stated fails: the pointer has left shape 1, the tracked target,
  and the handling of that move emits no mouseout.
\<close>

theorem C3_counterexample:
  "isTarget (strip 1 0 10) hoverOne \<and> \<not> drag_moving hoverOne
   \<and> getUserPosition (step storeAsGiven (Dom (moveOut 2000)) hoverOne)
       = Some \<lparr>pos_x = 15, pos_y = 5\<rparr>
   \<and> \<not> intersects (strip 1 0 10) \<lparr>pos_x = 15, pos_y = 5\<rparr>
   \<and> emitted hoverOne = [(1, Mouseover)]
   \<and> emitted (step storeAsGiven (Dom (moveOut 2000)) hoverOne) = [(1, Mouseover)]"
  by code_simp

end
